theory Spec2Isabelle
  imports Complex_Main "HOL-Library.Word"
begin

section \<open>Values shared by the whole module\<close>

text \<open>
  The module \<open>src/index.js\<close> exports \<open>distTopK\<close>, \<open>queryDist\<close>, \<open>queryToTiledDist\<close>,
  \<open>makeONNXRunnables\<close>, \<open>flattenCodebook\<close> and the mutable object \<open>env\<close>.

  \<open>queryToTiledDist\<close> never computes with float values: it moves the distances that
  the kernel returns into \<open>dists\<close> and hands arrays to the inference sessions. There the
  values are kept abstract (a type variable), and a slot that JavaScript fills with
  \<open>undefined\<close> (a read past the end of an array, stored as NaN by a \<open>Float32Array\<close>)
  is \<open>None\<close>. \<open>flattenCodebook\<close> builds a \<open>Float32Array\<close> out of arbitrary
  numbers, which rounds them; its numbers are modelled as such.

  The errors a run can end with: the two exceptions the JavaScript of this module can
  raise by itself, and the rejection of an inference session's \<open>run\<close>. \<open>ShapeError\<close>
  and \<open>InvalidKError\<close> are the names the specification uses; no path of the source
  raises them.
\<close>

datatype error = TypeError | RangeError | InferenceError string | ShapeError | InvalidKError

text \<open>\<open>xs[i]\<close> on a JavaScript array: \<open>undefined\<close> out of range.\<close>

definition at_index :: "'a list \<Rightarrow> nat \<Rightarrow> 'a option" where
  "at_index xs i = (if i < length xs then Some (xs ! i) else None)"

text \<open>The exported object \<open>env\<close>; callers may overwrite its fields.\<close>

record config =
  maxTick :: int
  chunkSize :: nat

definition env :: config where
  "env = \<lparr>maxTick = 30, chunkSize = 100000\<rparr>"

section \<open>Numbers and Float32Array\<close>

text \<open>
  A JavaScript number is NaN, an infinity or a finite double. A finite number is
  modelled by its exact value, a real (every double is one); the zero that carries a
  minus sign is kept apart.
\<close>

datatype number = NaN | PosInfinity | NegInfinity | NegZero | Finite real

text \<open>The comparison \<open>==\<close> of two numbers: NaN equals nothing, the two zeros are equal.\<close>

definition number_equal :: "number \<Rightarrow> number \<Rightarrow> bool" where
  "number_equal a b =
     (a \<noteq> NaN \<and> b \<noteq> NaN
      \<and> (a = b \<or> ((a = NegZero \<or> a = Finite 0) \<and> (b = NegZero \<or> b = Finite 0))))"

text \<open>\<open>ToNumber\<close> of a number or \<open>undefined\<close>.\<close>

fun ToNumber :: "number option \<Rightarrow> number" where
  "ToNumber None = NaN"
| "ToNumber (Some v) = v"

text \<open>
  An element stored into a \<open>Float32Array\<close> is rounded to the nearest binary32 value,
  ties to the even significand (what \<open>Math.fround\<close> computes). The finite binary32
  values are \<open>m * 2^(e - 23)\<close> with \<open>|m| < 2^24\<close> and \<open>-126 \<le> e \<le> 127\<close>. For a
  magnitude \<open>a\<close>, \<open>float32_exponent\<close> is the largest such \<open>e\<close> with \<open>2^e \<le> a\<close>,
  and \<open>-126\<close> below the normal range; \<open>a / 2^(e - 23)\<close> is rounded to an integer, and
  what reaches \<open>2^128\<close> becomes an infinity.
\<close>

definition roundTiesToEven :: "real \<Rightarrow> int" where
  "roundTiesToEven t =
     (let n = \<lfloor>t\<rfloor>
      in if t - of_int n < 1 / 2 then n
         else if 1 / 2 < t - of_int n then n + 1
         else if even n then n else n + 1)"

function exponent_search :: "int \<Rightarrow> real \<Rightarrow> int" where
  "exponent_search e a =
     (if e \<le> - 126 then - 126
      else if 2 powi e \<le> a then e
      else exponent_search (e - 1) a)"
  by auto
termination
  by (relation "measure (\<lambda>(e, a). nat (e + 126))") auto

declare exponent_search.simps [simp del]

definition float32_exponent :: "real \<Rightarrow> int" where
  "float32_exponent a = exponent_search 127 a"

definition fround_finite :: "real \<Rightarrow> number" where
  "fround_finite x =
     (let a = \<bar>x\<bar>;
          q = 2 powi (float32_exponent a - 23);
          r = of_int (roundTiesToEven (a / q)) * q
      in if 2 ^ 128 \<le> r then (if x < 0 then NegInfinity else PosInfinity)
         else if r = 0 then (if x < 0 then NegZero else Finite 0)
         else Finite (if x < 0 then - r else r))"

fun fround :: "number \<Rightarrow> number" where
  "fround (Finite x) = fround_finite x"
| "fround v = v"

text \<open>
  \<open>Float32Array.from({length: n}, (e, i) => f i)\<close>: the callback runs for
  \<open>i = 0, ..., n - 1\<close> in order, its value is converted to a number and stored
  rounded, and the first exception aborts the construction.
\<close>

fun collect :: "(nat \<Rightarrow> error + 'b) \<Rightarrow> nat list \<Rightarrow> error + 'b list" where
  "collect f [] = Inr []"
| "collect f (i # js) =
     (case f i of
        Inl e \<Rightarrow> Inl e
      | Inr v \<Rightarrow> (case collect f js of Inl e \<Rightarrow> Inl e | Inr vs \<Rightarrow> Inr (v # vs)))"

definition Float32Array_from ::
  "nat \<Rightarrow> (nat \<Rightarrow> error + number option) \<Rightarrow> error + number list" where
  "Float32Array_from n f =
     collect (\<lambda>i. case f i of Inl e \<Rightarrow> Inl e | Inr v \<Rightarrow> Inr (fround (ToNumber v))) [0..<n]"

section \<open>flattenCodebook\<close>

text \<open>
  The callback of \<open>flattenCodebook\<close>:
  \<open>codebk[floor(i / n1 / n2)][floor(i / n2) % n1][i % n2]\<close> with
  \<open>n1 = codebk[0].length\<close> and \<open>n2 = codebk[0][0].length\<close>. Indexing \<open>undefined\<close>
  raises \<open>TypeError\<close>; the innermost read may yield \<open>undefined\<close>. The divisions are
  exact on the integers below \<open>2^53\<close> that array lengths are.
\<close>

definition codebk_entry :: "'a list list list \<Rightarrow> nat \<Rightarrow> nat \<Rightarrow> nat \<Rightarrow> error + 'a option" where
  "codebk_entry codebk n1 n2 i =
     (case at_index codebk (i div n1 div n2) of
        None \<Rightarrow> Inl TypeError
      | Some g \<Rightarrow>
          (case at_index g ((i div n2) mod n1) of
             None \<Rightarrow> Inl TypeError
           | Some c \<Rightarrow> Inr (at_index c (i mod n2))))"

definition flattenCodebook :: "number list list list \<Rightarrow> error + number list" where
  "flattenCodebook codebk =
     (case codebk of
        [] \<Rightarrow> Inl TypeError
      | g0 # _ \<Rightarrow>
          (case g0 of
             [] \<Rightarrow> Inl TypeError
           | c0 # _ \<Rightarrow>
               Float32Array_from (length codebk * length g0 * length c0)
                 (codebk_entry codebk (length g0) (length c0))))"

text \<open>
  A codebook is rectangular when every group has \<open>n1\<close> centroids and every centroid
  has \<open>n2\<close> components.
\<close>

definition rectangular :: "'a list list list \<Rightarrow> nat \<Rightarrow> nat \<Rightarrow> bool" where
  "rectangular codebk n1 n2 =
     list_all (\<lambda>g. length g = n1 \<and> list_all (\<lambda>c. length c = n2) g) codebk"

definition is_rectangular :: "'a list list list \<Rightarrow> bool" where
  "is_rectangular codebk =
     (case codebk of
        [] \<Rightarrow> True
      | g0 # _ \<Rightarrow> (case g0 of [] \<Rightarrow> rectangular codebk 0 0
                   | c0 # _ \<Rightarrow> rectangular codebk (length g0) (length c0)))"

section \<open>Typed arrays, shards and inference sessions\<close>

type_synonym byte = "8 word"

text \<open>
  A \<open>Uint8Array\<close> is a view of \<open>length_u8\<close> bytes into a buffer, starting at
  \<open>byteOffset\<close>. JavaScript only builds views that lie inside their buffer
  (\<open>wf_uint8array\<close>): \<open>new Uint8Array(buffer, byteOffset, length)\<close> raises
  \<open>RangeError\<close> otherwise.
\<close>

record uint8array =
  buffer :: "byte list"
  byteOffset :: nat
  length_u8 :: nat

definition wf_uint8array :: "uint8array \<Rightarrow> bool" where
  "wf_uint8array a = (byteOffset a + length_u8 a \<le> length (buffer a))"

definition new_Uint8Array :: "byte list \<Rightarrow> nat \<Rightarrow> nat \<Rightarrow> error + uint8array" where
  "new_Uint8Array buf off n =
     (if off + n \<le> length buf
      then Inr \<lparr>buffer = buf, byteOffset = off, length_u8 = n\<rparr>
      else Inl RangeError)"

text \<open>An element of the \<open>embeddings\<close> argument: \<open>{data, offset}\<close>.\<close>

record shard =
  data :: uint8array
  offset :: nat

text \<open>
  The two inference sessions are external: \<open>run\<close> is a parameter of the model, which
  either resolves with \<open>output.data\<close> or rejects. A tensor built with a shape is the
  pair of its data and its dimensions.
\<close>

type_synonym 'v pq_session =
  "'v list \<Rightarrow> 'v option list \<times> nat list \<Rightarrow> uint8array \<times> nat list \<Rightarrow> error + 'v list"

type_synonym ('v, 't) topk_session =
  "'v option list \<Rightarrow> 'v list \<Rightarrow> 'v list \<Rightarrow> int list \<Rightarrow> int list \<Rightarrow> byte list \<Rightarrow> error + 't"

text \<open>
  \<open>distTopK\<close>: the tensors \<open>input\<close>, \<open>filterColumn\<close>, \<open>filterValue\<close>,
  \<open>filterZero\<close>, \<open>filterShim\<close> and \<open>k\<close>, in this order. \<open>new Tensor("uint8", [k])\<close>
  converts \<open>k\<close> as \<open>Uint8Array.from\<close> does, modulo 256.
\<close>

definition distTopK ::
  "('v, 't) topk_session \<Rightarrow> 'v option list \<Rightarrow> 'v list \<Rightarrow> 'v \<Rightarrow> int \<Rightarrow> int \<Rightarrow> int \<Rightarrow> error + 't" where
  "distTopK inferenceSession dists_arg filterColumn filterValue filterZero filterShim k_arg =
     inferenceSession dists_arg filterColumn [filterValue] [filterZero] [filterShim]
       [word_of_int k_arg]"

text \<open>\<open>queryDist\<close>: the tensors \<open>query\<close>, \<open>codebook\<close> and \<open>embeddings\<close>.\<close>

definition queryDist ::
  "'v pq_session \<Rightarrow> 'v list \<Rightarrow> 'v option list \<Rightarrow> nat list \<Rightarrow> uint8array \<Rightarrow> nat list
     \<Rightarrow> error + 'v list" where
  "queryDist inferenceSession query_arg codebook codebookShape embeddings_arg embeddingTensorShape =
     inferenceSession query_arg (codebook, codebookShape) (embeddings_arg, embeddingTensorShape)"

section \<open>queryToTiledDist\<close>

text \<open>
  The read-only arguments of \<open>queryToTiledDist\<close>, and the two things it asks of its
  surroundings: \<open>now n\<close> is what the \<open>n\<close>-th call of \<open>Date.now()\<close> of the run
  returns, \<open>continueFn n\<close> what the \<open>n\<close>-th call of the caller's predicate returns
  (counting from 0). The remaining arguments (\<open>embeddings\<close>, \<open>dists\<close>,
  \<open>embeddingCounter\<close>) are passed on their own; \<open>intermediateValueFn\<close> is the
  trace below. The two callbacks and \<open>Date.now\<close> are taken to return normally: a
  callback that throws is not modelled, so the only rejections are those of the
  function's own code and of the two inference sessions.
\<close>

record ('v, 't) params =
  now :: "nat \<Rightarrow> int"
  query :: "'v list"
  codebk :: "'v list list list"
  codebkflat :: "'v option list"
  pqdistinf :: "'v pq_session"
  firstLetters :: "'v list"
  firstLetterInt :: "'v"
  filteredtopkinf :: "('v, 't) topk_session"
  topk_k :: int
  continueFn :: "nat \<Rightarrow> bool"

text \<open>
  An entry of \<open>timingStrings\<close>: \<open>`${distTime - startTime}`\<close> or
  \<open>`-${topktime - distTime} `\<close>; the rendering as text and \<open>join()\<close> are left out.
\<close>

datatype timing = DistMs int | TopkMs int

text \<open>
  The objects handed to \<open>intermediateValueFn\<close>: \<open>{dists, distTime, lastPaint}\<close>,
  \<open>{topk}\<close> and \<open>{dists, distTime, topk}\<close>. The array is recorded as it is at the
  time of the call.
\<close>

datatype ('v, 't) update =
    DistanceUpdate "'v option list" "timing list" int
  | TopKUpdate 't
  | FinalUpdate "'v option list" "timing list" 't

text \<open>
  What a run does to its surroundings, in order: a call of \<open>continueFn\<close> with its
  answer; a call of \<open>queryDist\<close> for the chunk at in-shard index \<open>i\<close> of shard
  number \<open>embeddingCounter\<close>; an assignment \<open>dists[x] = v\<close> made for that chunk;
  the reading \<open>distTime\<close> taken when the chunk's distances are written; a call of
  \<open>intermediateValueFn\<close>; a call of \<open>distTopK\<close> with its \<open>dists\<close>,
  \<open>filterZero\<close>, \<open>filterShim\<close> and \<open>k\<close>; the \<open>setTimeout(r, 0)\<close> suspension.
\<close>

datatype ('v, 't) event =
    Polled bool
  | KernelCall nat nat uint8array
  | Wrote nat nat nat "'v option"
  | KernelDone int
  | Emitted "('v, 't) update"
  | TopKCall "'v option list" int int int
  | Yielded

text \<open>
  The mutable part of a run. \<open>dists\<close> is a \<open>Float32Array\<close>: its length is fixed and
  an assignment out of range is dropped, which is what \<open>xs[i := v]\<close> does.
\<close>

record ('v, 't) state =
  dists :: "'v option list"
  lastPaint :: int
  timingStrings :: "timing list"
  clock_reads :: nat
  polls :: nat
  trace :: "('v, 't) event list"

text \<open>How the promise of an asynchronous function settles.\<close>

datatype ('v, 't) outcome = Resolved "('v, 't) state" | Rejected error "('v, 't) state"

definition log_event :: "('v, 't) event \<Rightarrow> ('v, 't) state \<Rightarrow> ('v, 't) state" where
  "log_event e s = s\<lparr>trace := trace s @ [e]\<rparr>"

definition Date_now :: "('v, 't) params \<Rightarrow> ('v, 't) state \<Rightarrow> int \<times> ('v, 't) state" where
  "Date_now P s = (now P (clock_reads s), s\<lparr>clock_reads := Suc (clock_reads s)\<rparr>)"

definition poll :: "('v, 't) params \<Rightarrow> ('v, 't) state \<Rightarrow> bool \<times> ('v, 't) state" where
  "poll P s =
     (continueFn P (polls s),
      log_event (Polled (continueFn P (polls s))) (s\<lparr>polls := Suc (polls s)\<rparr>))"

definition intermediateValueFn :: "('v, 't) update \<Rightarrow> ('v, 't) state \<Rightarrow> ('v, 't) state" where
  "intermediateValueFn u s = log_event (Emitted u) s"

text \<open>
  A call \<open>await distTopK(filteredtopkinf, dists, firstLetters, firstLetterInt, filterZero,
  filterShim, k)\<close> of the scheduler, recorded with the arguments it passes.
\<close>

definition call_distTopK ::
  "('v, 't) params \<Rightarrow> int \<Rightarrow> int \<Rightarrow> ('v, 't) state \<Rightarrow> (error + 't) \<times> ('v, 't) state" where
  "call_distTopK P filterZero filterShim s =
     (distTopK (filteredtopkinf P) (dists s) (firstLetters P) (firstLetterInt P)
        filterZero filterShim (topk_k P),
      log_event (TopKCall (dists s) filterZero filterShim (topk_k P)) s)"

text \<open>Lines 75 to 77: \<open>for (j = 0; j < chunkSize; j++) dists[embeddingOffset+i+j] = distTile[j]\<close>.\<close>

definition write_at :: "nat \<Rightarrow> nat \<Rightarrow> nat \<Rightarrow> 'v option \<Rightarrow> ('v, 't) state \<Rightarrow> ('v, 't) state" where
  "write_at embeddingCounter i x v s =
     log_event (Wrote embeddingCounter i x v) (s\<lparr>dists := (dists s)[x := v]\<rparr>)"

definition write_tile ::
  "config \<Rightarrow> nat \<Rightarrow> nat \<Rightarrow> nat \<Rightarrow> 'v list \<Rightarrow> ('v, 't) state \<Rightarrow> ('v, 't) state" where
  "write_tile E embeddingCounter embeddingOffset i distTile s =
     fold (\<lambda>j. write_at embeddingCounter i (embeddingOffset + i + j) (at_index distTile j))
       [0..<chunkSize E] s"

text \<open>Lines 82 to 87: the recomputation inside the scan.\<close>

definition repaint :: "('v, 't) params \<Rightarrow> int \<Rightarrow> ('v, 't) state \<Rightarrow> ('v, 't) outcome" where
  "repaint P distTime s =
     (case call_distTopK P 0 1024 s of
        (Inl e, s1) \<Rightarrow> Rejected e s1
      | (Inr topk, s1) \<Rightarrow>
          (case Date_now P s1 of
             (topktime, s2) \<Rightarrow>
               (let s3 = s2\<lparr>timingStrings := timingStrings s2 @ [TopkMs (topktime - distTime)]\<rparr>;
                    s4 = intermediateValueFn (TopKUpdate topk) s3;
                    s5 = log_event Yielded s4
                in case Date_now P s5 of (t, s6) \<Rightarrow> Resolved (s6\<lparr>lastPaint := t\<rparr>))))"

text \<open>
  Lines 75 to 80: the distances of the chunk are written, \<open>distTime\<close> is read, the
  duration is pushed and \<open>intermediateValueFn({dists, distTime, lastPaint})\<close> is called.
\<close>

definition deliver_tile ::
  "config \<Rightarrow> ('v, 't) params \<Rightarrow> nat \<Rightarrow> shard \<Rightarrow> nat \<Rightarrow> int \<Rightarrow> 'v list \<Rightarrow> ('v, 't) state
     \<Rightarrow> int \<times> ('v, 't) state" where
  "deliver_tile E P embeddingCounter sh i startTime distTile s =
     (case Date_now P (write_tile E embeddingCounter (offset sh) i distTile s) of
        (distTime, s1) \<Rightarrow>
          (let s2 = log_event (KernelDone distTime)
                      (s1\<lparr>timingStrings := timingStrings s1 @ [DistMs (distTime - startTime)]\<rparr>)
           in (distTime,
               intermediateValueFn
                 (DistanceUpdate (dists s2) (timingStrings s2) (lastPaint s2)) s2)))"

text \<open>Line 73: the view of the chunk's codes.\<close>

definition embeddingTile_of :: "config \<Rightarrow> ('v, 't) params \<Rightarrow> shard \<Rightarrow> nat \<Rightarrow> error + uint8array" where
  "embeddingTile_of E P sh i =
     (let startEmbeddingPosition = i * length (codebk P);
          embeddingTileLength = chunkSize E * length (codebk P)
      in new_Uint8Array (buffer (data sh)) (startEmbeddingPosition + byteOffset (data sh))
           embeddingTileLength)"

text \<open>Line 74: the call of \<open>queryDist\<close> for a tile.\<close>

definition call_queryDist ::
  "config \<Rightarrow> ('v, 't) params \<Rightarrow> nat list \<Rightarrow> uint8array \<Rightarrow> error + 'v list" where
  "call_queryDist E P codebookshape embeddingTile =
     (let embeddingTensorShape = [chunkSize E, length (codebk P)]
      in queryDist (pqdistinf P) (query P) (codebkflat P) codebookshape embeddingTile
           embeddingTensorShape)"

text \<open>Lines 69 to 88: the body of the inner loop, for one chunk.\<close>

definition scan_chunk ::
  "config \<Rightarrow> ('v, 't) params \<Rightarrow> nat list \<Rightarrow> nat \<Rightarrow> shard \<Rightarrow> nat \<Rightarrow> ('v, 't) state
     \<Rightarrow> ('v, 't) outcome" where
  "scan_chunk E P codebookshape embeddingCounter sh i s =
     (case Date_now P s of
        (startTime, s1) \<Rightarrow>
          (case embeddingTile_of E P sh i of
             Inl e \<Rightarrow> Rejected e s1
           | Inr embeddingTile \<Rightarrow>
               (let s2 = log_event (KernelCall embeddingCounter i embeddingTile) s1
                in case call_queryDist E P codebookshape embeddingTile of
                     Inl e \<Rightarrow> Rejected e s2
                   | Inr distTile \<Rightarrow>
                       (case deliver_tile E P embeddingCounter sh i startTime distTile s2 of
                          (distTime, s3) \<Rightarrow>
                            if (i = 0 \<and> embeddingCounter = 0)
                               \<or> distTime - lastPaint s3 > maxTick E
                            then repaint P distTime s3
                            else Resolved s3))))"

text \<open>
  Line 68: \<open>for (let i = 0; i < data.length / codebk.length && continueFn(); i += chunkSize)\<close>.
  \<open>i < data.length / codebk.length\<close> is \<open>i * codebk.length < data.length\<close>, also where
  \<open>codebk.length\<close> is 0 (the quotient is then \<open>Infinity\<close>, or \<open>NaN\<close> for an empty
  shard). The loop need not end (a \<open>chunkSize\<close> of 0): not returning is \<open>None\<close>.
\<close>

partial_function (option) chunkLoop ::
  "config \<Rightarrow> ('v, 't) params \<Rightarrow> nat list \<Rightarrow> nat \<Rightarrow> shard \<Rightarrow> nat \<Rightarrow> ('v, 't) state
     \<Rightarrow> ('v, 't) outcome option" where
  "chunkLoop E P codebookshape embeddingCounter sh i s =
     (if i * length (codebk P) < length_u8 (data sh)
      then (case poll P s of
              (c, s1) \<Rightarrow>
                if c
                then (case scan_chunk E P codebookshape embeddingCounter sh i s1 of
                        Rejected e s2 \<Rightarrow> Some (Rejected e s2)
                      | Resolved s2 \<Rightarrow>
                          chunkLoop E P codebookshape embeddingCounter sh (i + chunkSize E) s2)
                else Some (Resolved s1))
      else Some (Resolved s))"

declare chunkLoop.simps [code]

text \<open>
  Line 66: \<open>for (; embeddingCounter < embeddings.length; embeddingCounter++)\<close>, over the
  shards from \<open>embeddings[embeddingCounter]\<close> on.
\<close>

fun shardLoop ::
  "config \<Rightarrow> ('v, 't) params \<Rightarrow> nat list \<Rightarrow> nat \<Rightarrow> shard list \<Rightarrow> ('v, 't) state
     \<Rightarrow> ('v, 't) outcome option" where
  "shardLoop E P codebookshape embeddingCounter [] s = Some (Resolved s)"
| "shardLoop E P codebookshape embeddingCounter (sh # rest) s =
     (case chunkLoop E P codebookshape embeddingCounter sh 0 s of
        None \<Rightarrow> None
      | Some (Rejected e s1) \<Rightarrow> Some (Rejected e s1)
      | Some (Resolved s1) \<Rightarrow> shardLoop E P codebookshape (Suc embeddingCounter) rest s1)"

text \<open>Lines 91 to 94: the final recomputation.\<close>

definition finish :: "('v, 't) params \<Rightarrow> ('v, 't) state \<Rightarrow> ('v, 't) outcome" where
  "finish P s =
     (case poll P s of
        (c, s1) \<Rightarrow>
          if c
          then (case call_distTopK P 0 1024 s1 of
                  (Inl e, s2) \<Rightarrow> Rejected e s2
                | (Inr topk, s2) \<Rightarrow>
                    Resolved (intermediateValueFn
                                (FinalUpdate (dists s2) (timingStrings s2) topk) s2))
          else Resolved s1)"

text \<open>
  Line 64: \<open>[codebk.length, codebk[0].length, codebk[0][0].length]\<close>, a \<open>TypeError\<close>
  when \<open>codebk[0]\<close> or \<open>codebk[0][0]\<close> is \<open>undefined\<close>.
\<close>

definition codebookshape_of :: "'v list list list \<Rightarrow> error + nat list" where
  "codebookshape_of cb =
     (case cb of
        [] \<Rightarrow> Inl TypeError
      | g0 # _ \<Rightarrow>
          (case g0 of
             [] \<Rightarrow> Inl TypeError
           | c0 # _ \<Rightarrow> Inr [length cb, length g0, length c0]))"

text \<open>Lines 62 and 63: \<open>let lastPaint = Date.now(); const timingStrings = [];\<close>\<close>

definition start_state :: "('v, 't) params \<Rightarrow> 'v option list \<Rightarrow> ('v, 't) state" where
  "start_state P dists_arg =
     \<lparr>dists = dists_arg, lastPaint = now P 0, timingStrings = [], clock_reads = Suc 0,
      polls = 0, trace = []\<rparr>"

definition queryToTiledDist ::
  "config \<Rightarrow> ('v, 't) params \<Rightarrow> shard list \<Rightarrow> 'v option list \<Rightarrow> nat
     \<Rightarrow> ('v, 't) outcome option" where
  "queryToTiledDist E P embeddings dists_arg embeddingCounter =
     (case codebookshape_of (codebk P) of
        Inl e \<Rightarrow> Some (Rejected e (start_state P dists_arg))
      | Inr codebookshape \<Rightarrow>
          (case shardLoop E P codebookshape embeddingCounter
                  (drop embeddingCounter embeddings) (start_state P dists_arg) of
             None \<Rightarrow> None
           | Some (Rejected e s1) \<Rightarrow> Some (Rejected e s1)
           | Some (Resolved s1) \<Rightarrow> Some (finish P s1)))"

section \<open>Reading a run\<close>

fun state_of :: "('v, 't) outcome \<Rightarrow> ('v, 't) state" where
  "state_of (Resolved s) = s"
| "state_of (Rejected e s) = s"

text \<open>
  The events one chunk may produce: no call of \<open>continueFn\<close>, no final update, and
  \<open>distTopK\<close> only with \<open>filterZero = 0\<close> and \<open>filterShim = 1024\<close>.
\<close>

fun chunk_event :: "('v, 't) event \<Rightarrow> bool" where
  "chunk_event (Polled b) = False"
| "chunk_event (Emitted (FinalUpdate d ts topk)) = False"
| "chunk_event (TopKCall d filterZero filterShim kk) = (filterZero = 0 \<and> filterShim = 1024)"
| "chunk_event e = True"

text \<open>The state after lines 75 to 80 of a chunk whose kernel call returned \<open>distTile\<close>.\<close>

definition delivered ::
  "config \<Rightarrow> ('v, 't) params \<Rightarrow> nat \<Rightarrow> shard \<Rightarrow> nat \<Rightarrow> uint8array \<Rightarrow> 'v list
     \<Rightarrow> ('v, 't) state \<Rightarrow> ('v, 't) state" where
  "delivered E P ec sh i tile distTile s =
     snd (deliver_tile E P ec sh i (now P (clock_reads s)) distTile
            (log_event (KernelCall ec i tile) (snd (Date_now P s))))"

text \<open>
  The condition of line 81 for a chunk entered in state \<open>s\<close>: \<open>distTime\<close> is the
  second clock reading of the chunk.
\<close>

definition repaint_due :: "config \<Rightarrow> ('v, 't) params \<Rightarrow> nat \<Rightarrow> nat \<Rightarrow> ('v, 't) state \<Rightarrow> bool" where
  "repaint_due E P ec i s =
     ((i = 0 \<and> ec = 0) \<or> now P (Suc (clock_reads s)) - lastPaint s > maxTick E)"

text \<open>The events the two loops may produce: those of a chunk, and the calls of \<open>continueFn\<close>.\<close>

fun scan_event :: "('v, 't) event \<Rightarrow> bool" where
  "scan_event (Polled b) = True"
| "scan_event e = chunk_event e"

fun topk_filters_ok :: "('v, 't) event \<Rightarrow> bool" where
  "topk_filters_ok (TopKCall d filterZero filterShim kk) = (filterZero = 0 \<and> filterShim = 1024)"
| "topk_filters_ok e = True"

fun is_topk_call :: "('v, 't) event \<Rightarrow> bool" where
  "is_topk_call (TopKCall d filterZero filterShim kk) = True"
| "is_topk_call e = False"

fun is_final :: "('v, 't) event \<Rightarrow> bool" where
  "is_final (Emitted (FinalUpdate d ts topk)) = True"
| "is_final e = False"

fun is_kernel_call :: "('v, 't) event \<Rightarrow> bool" where
  "is_kernel_call (KernelCall ec i tile) = True"
| "is_kernel_call e = False"

text \<open>
  A list of events is guarded when its first call of \<open>distTopK\<close>, if it has one, comes
  after a call of \<open>queryDist\<close>.
\<close>

definition guarded :: "('v, 't) event list \<Rightarrow> bool" where
  "guarded evs =
     (list_ex is_topk_call evs
        \<longrightarrow> list_ex is_kernel_call (takeWhile (\<lambda>e. \<not> is_topk_call e) evs))"

section \<open>Reading the recomputations off a trace\<close>

text \<open>
  While a trace is read from left to right, the chunk being processed is known from
  its \<open>KernelCall\<close>, its \<open>distTime\<close> from \<open>KernelDone\<close> and the value of
  \<open>lastPaint\<close> at that time from the \<open>{dists, distTime, lastPaint}\<close> update that
  follows: shard number, in-shard index, \<open>distTime\<close>, \<open>lastPaint\<close>.
\<close>

type_synonym cursor = "nat \<times> nat \<times> int \<times> int"

fun advance :: "cursor \<Rightarrow> ('v, 't) event \<Rightarrow> cursor" where
  "advance (ec, i, t, lp) (KernelCall ec' i' tile) = (ec', i', t, lp)"
| "advance (ec, i, t, lp) (KernelDone t') = (ec, i, t', lp)"
| "advance (ec, i, t, lp) (Emitted (DistanceUpdate d ts lp')) = (ec, i, t, lp')"
| "advance c e = c"

fun is_topk_update :: "('v, 't) event \<Rightarrow> bool" where
  "is_topk_update (Emitted (TopKUpdate topk)) = True"
| "is_topk_update e = False"

text \<open>
  The \<open>{topk}\<close> updates of a trace (those of the scan: the final update is of another
  kind), each with the chunk it follows.
\<close>

fun repaints_from :: "cursor \<Rightarrow> ('v, 't) event list \<Rightarrow> cursor list" where
  "repaints_from c [] = []"
| "repaints_from c (e # evs) =
     (if is_topk_update e then [c] else []) @ repaints_from (advance c e) evs"

definition repaints :: "('v, 't) event list \<Rightarrow> cursor list" where
  "repaints tr = repaints_from (0, 0, 0, 0) tr"


text \<open>The \<open>distTime\<close> of the chunk each \<open>{topk}\<close> update of the scan follows.\<close>

definition stamps :: "('v, 't) event list \<Rightarrow> int list" where
  "stamps tr = map (\<lambda>c. case c of (ec, i, t, lp) \<Rightarrow> t) (repaints tr)"

text \<open>
  What the scan keeps true of its recomputations: each is more than \<open>maxTick\<close> after
  the one before, and \<open>lastPaint\<close> is not earlier than the last of them.
\<close>

definition cadence :: "config \<Rightarrow> ('v, 't) state \<Rightarrow> bool" where
  "cadence E s =
     (successively (\<lambda>a b. maxTick E < b - a) (stamps (trace s))
      \<and> (stamps (trace s) \<noteq> [] \<longrightarrow> last (stamps (trace s)) \<le> lastPaint s))"

section \<open>Reading cancellation and the distance array off a trace\<close>

fun is_polled :: "('v, 't) event \<Rightarrow> bool" where
  "is_polled (Polled b) = True"
| "is_polled e = False"

text \<open>The events after the first "stop" answer of \<open>continueFn\<close>.\<close>

definition after_stop :: "('v, 't) event list \<Rightarrow> ('v, 't) event list" where
  "after_stop tr = tl (dropWhile (\<lambda>e. e \<noteq> Polled False) tr)"

text \<open>The assignments of a trace, applied in order to a distance array.\<close>

fun apply_event :: "('v, 't) event \<Rightarrow> 'v option list \<Rightarrow> 'v option list" where
  "apply_event (Wrote ec i x v) d = d[x := v]"
| "apply_event e d = d"

definition replay :: "('v, 't) event list \<Rightarrow> 'v option list \<Rightarrow> 'v option list" where
  "replay tr d = fold apply_event tr d"

text \<open>
  A list of events has whole chunks when, for each of its kernel calls that returned,
  all \<open>chunkSize\<close> assignments of that chunk are in it, from some \<open>embeddingOffset\<close> on.
\<close>

definition whole_chunks ::
  "config \<Rightarrow> ('v, 't) params \<Rightarrow> nat list \<Rightarrow> ('v, 't) event list \<Rightarrow> bool" where
  "whole_chunks E P shape evs =
     (\<forall>ec i tile distTile.
        KernelCall ec i tile \<in> set evs \<and> call_queryDist E P shape tile = Inr distTile
        \<longrightarrow> (\<exists>off. \<forall>j < chunkSize E.
               Wrote ec i (off + i + j) (at_index distTile j) \<in> set evs))"

text \<open>
  The calls of \<open>continueFn\<close> recorded in the trace are the first \<open>polls\<close> answers of
  the predicate, and nothing but "stop" answers follows the first "stop".
\<close>

definition halted :: "('v, 't) params \<Rightarrow> ('v, 't) state \<Rightarrow> bool" where
  "halted P s =
     (filter is_polled (trace s) = map (\<lambda>n. Polled (continueFn P n)) [0..<polls s]
      \<and> list_all (\<lambda>e. e = Polled False) (after_stop (trace s)))"

section \<open>Reading the use of k off a run\<close>

text \<open>
  The events, the state and the outcome of a run as they would be recorded had \<open>k'\<close>
  been passed for \<open>k\<close>: only the argument recorded with the calls of \<open>distTopK\<close>
  differs.
\<close>

fun with_k :: "int \<Rightarrow> ('v, 't) event \<Rightarrow> ('v, 't) event" where
  "with_k k' (TopKCall d filterZero filterShim kk) = TopKCall d filterZero filterShim k'"
| "with_k k' e = e"

definition state_with_k :: "int \<Rightarrow> ('v, 't) state \<Rightarrow> ('v, 't) state" where
  "state_with_k k' s = s\<lparr>trace := map (with_k k') (trace s)\<rparr>"

fun outcome_with_k :: "int \<Rightarrow> ('v, 't) outcome \<Rightarrow> ('v, 't) outcome" where
  "outcome_with_k k' (Resolved s) = Resolved (state_with_k k' s)"
| "outcome_with_k k' (Rejected e s) = Rejected e (state_with_k k' s)"

text \<open>
  The top-k engine answers a call with \<open>k'\<close> as it answers the call with the caller's
  \<open>k\<close>, whatever the distance array. (An engine that ignores \<open>k\<close> does; every engine
  does when \<open>k'\<close> and \<open>k\<close> are the same \<open>uint8\<close>.)
\<close>

definition same_answers :: "('v, 't) params \<Rightarrow> int \<Rightarrow> bool" where
  "same_answers P k' =
     (\<forall>d. distTopK (filteredtopkinf P) d (firstLetters P) (firstLetterInt P) 0 1024 k'
          = distTopK (filteredtopkinf P) d (firstLetters P) (firstLetterInt P) 0 1024 (topk_k P))"

text \<open>
  Where the error \<open>e\<close> of a run rejected in state \<open>s\<close> comes from, read off the last
  event of the run. After a "continue" answer of \<open>continueFn\<close>: the \<open>RangeError\<close> of
  line 73, for a chunk of one of the shards whose tile does not fit its buffer. After a
  call of \<open>queryDist\<close> on the tile of a chunk: the error this call was rejected with.
  After a call of \<open>distTopK\<close> on the current distance array with the caller's \<open>k\<close>:
  the error this call was rejected with. No other event ends a rejected run.
\<close>

definition call_rejected ::
  "config \<Rightarrow> ('v, 't) params \<Rightarrow> nat list \<Rightarrow> shard list \<Rightarrow> error \<Rightarrow> ('v, 't) state \<Rightarrow> bool" where
  "call_rejected E P codebookshape shards e s =
     (trace s \<noteq> []
      \<and> (case last (trace s) of
            Polled b \<Rightarrow>
              b \<and> e = RangeError
              \<and> (\<exists>sh\<in>set shards. \<exists>i<length_u8 (data sh). embeddingTile_of E P sh i = Inl RangeError)
          | KernelCall ec i tile \<Rightarrow>
              (\<exists>sh\<in>set shards. embeddingTile_of E P sh i = Inr tile)
              \<and> call_queryDist E P codebookshape tile = Inl e
          | TopKCall d filterZero filterShim kk \<Rightarrow>
              d = dists s \<and> kk = topk_k P
              \<and> distTopK (filteredtopkinf P) d (firstLetters P) (firstLetterInt P)
                    filterZero filterShim kk = Inl e
          | _ \<Rightarrow> False))"

text \<open>
  With a codebook that has no first centroid the run is rejected with the \<open>TypeError\<close>
  of line 64 before anything else happens; otherwise by one of the calls above.
\<close>

definition rejection_source ::
  "config \<Rightarrow> ('v, 't) params \<Rightarrow> shard list \<Rightarrow> error \<Rightarrow> ('v, 't) state \<Rightarrow> bool" where
  "rejection_source E P embeddings e s =
     (case codebookshape_of (codebk P) of
        Inl e0 \<Rightarrow> e = TypeError \<and> trace s = []
      | Inr codebookshape \<Rightarrow> call_rejected E P codebookshape embeddings e s)"

text \<open>
  Where the first call of \<open>distTopK\<close>, the first use of \<open>k\<close>, stands in a list of
  events: there is none; or a call of \<open>queryDist\<close> comes before it; or nothing but
  calls of \<open>continueFn\<close> comes before it, the last one answering "continue", and it is
  the final recomputation, followed by the final update at most.
\<close>

definition k_used_late :: "('v, 't) event list \<Rightarrow> bool" where
  "k_used_late tr =
     (let before = takeWhile (\<lambda>e. \<not> is_topk_call e) tr;
          rest = dropWhile (\<lambda>e. \<not> is_topk_call e) tr
      in rest = []
         \<or> list_ex is_kernel_call before
         \<or> (before \<noteq> [] \<and> list_all is_polled before \<and> last before = Polled True
             \<and> length rest \<le> 2 \<and> list_all (\<lambda>e. is_topk_call e \<or> is_final e) rest))"

section \<open>Reading the assignments off a trace\<close>

text \<open>
  An assignment \<open>dists[x] = v\<close> as the triple of the shard number and the in-shard
  index of the chunk that made it, and \<open>x\<close>.
\<close>

fun write_of :: "('v, 't) event \<Rightarrow> (nat \<times> nat \<times> nat) list" where
  "write_of (Wrote ec i x v) = [(ec, i, x)]"
| "write_of e = []"

definition writes :: "('v, 't) event list \<Rightarrow> (nat \<times> nat \<times> nat) list" where
  "writes tr = concat (map write_of tr)"



text \<open>A run is cancelled when some call of \<open>continueFn\<close> has answered "stop".\<close>

definition cancelled :: "('v, 't) event list \<Rightarrow> bool" where
  "cancelled tr = (Polled False \<in> set tr)"

text \<open>
  The item count of a shard, \<open>data.length / codebk.length\<close>. A shard is tiled when its
  view lies in its buffer, holds whole items, and its item count is a multiple of
  \<open>chunkSize\<close>.
\<close>

definition items :: "('v, 't) params \<Rightarrow> shard \<Rightarrow> nat" where
  "items P sh = length_u8 (data sh) div length (codebk P)"

definition tiled :: "config \<Rightarrow> ('v, 't) params \<Rightarrow> shard \<Rightarrow> bool" where
  "tiled E P sh =
     (wf_uint8array (data sh) \<and> length (codebk P) dvd length_u8 (data sh)
      \<and> chunkSize E dvd items P sh)"



text \<open>The assignments of the chunks of one shard, and of a list of shards, in order.\<close>

definition shard_writes ::
  "config \<Rightarrow> ('v, 't) params \<Rightarrow> nat \<Rightarrow> shard \<Rightarrow> nat list \<Rightarrow> (nat \<times> nat \<times> nat) list" where
  "shard_writes E P ec sh ks =
     concat (map (\<lambda>k. map (\<lambda>j. (ec, k * chunkSize E, offset sh + k * chunkSize E + j))
                         [0..<chunkSize E]) ks)"

fun scan_writes ::
  "config \<Rightarrow> ('v, 't) params \<Rightarrow> nat \<Rightarrow> shard list \<Rightarrow> (nat \<times> nat \<times> nat) list" where
  "scan_writes E P ec [] = []"
| "scan_writes E P ec (sh # rest) =
     shard_writes E P ec sh [0..<items P sh div chunkSize E] @ scan_writes E P (Suc ec) rest"

section \<open>A small run\<close>

text \<open>
  Concrete surroundings on which the model is run: a kernel that returns the codes of
  the tile as distances (one subspace), a top-k engine that counts the populated
  entries, and shards whose view is their whole buffer.
\<close>

definition demo_pq :: "int pq_session" where
  "demo_pq q cb emb =
     Inr (map uint (take (length_u8 (fst emb)) (drop (byteOffset (fst emb)) (buffer (fst emb)))))"

definition demo_topk :: "(int, nat) topk_session" where
  "demo_topk d col fv fz fs kk = Inr (length (filter (\<lambda>x. x \<noteq> None) d))"

definition demo_params :: "(nat \<Rightarrow> int) \<Rightarrow> (nat \<Rightarrow> bool) \<Rightarrow> (int, nat) params" where
  "demo_params clock cont =
     \<lparr>now = clock, query = [7], codebk = [[[7]]], codebkflat = [Some 7], pqdistinf = demo_pq,
      firstLetters = [0, 0, 0, 0], firstLetterInt = 0, filteredtopkinf = demo_topk, topk_k = 1,
      continueFn = cont\<rparr>"

definition demo_shard :: "nat \<Rightarrow> byte list \<Rightarrow> shard" where
  "demo_shard off bs =
     \<lparr>data = \<lparr>buffer = bs, byteOffset = 0, length_u8 = length bs\<rparr>, offset = off\<rparr>"

text \<open>
  One shard of one chunk, a clock that advances 20 ms per reading, no cancellation:
  the state the run ends in.
\<close>

definition demo_one_chunk :: "(int, nat) state" where
  "demo_one_chunk =
     \<lparr>dists = [Some 5], lastPaint = 80, timingStrings = [DistMs 20, TopkMs 20],
      clock_reads = 5, polls = 2,
      trace =
        [Polled True,
         KernelCall 0 0 \<lparr>buffer = [5], byteOffset = 0, length_u8 = 1\<rparr>,
         Wrote 0 0 0 (Some 5), KernelDone 40,
         Emitted (DistanceUpdate [Some 5] [DistMs 20] 0),
         TopKCall [Some 5] 0 1024 1, Emitted (TopKUpdate 1), Yielded,
         Polled True, TopKCall [Some 5] 0 1024 1,
         Emitted (FinalUpdate [Some 5] [DistMs 20, TopkMs 20] 1)]\<rparr>"


text \<open>
  The run of \<open>demo_one_chunk\<close> with \<open>k = 0\<close>.
\<close>

definition demo_k_zero :: "(int, nat) state" where
  "demo_k_zero =
     \<lparr>dists = [Some 5], lastPaint = 80,
        timingStrings = [DistMs 20, TopkMs 20], clock_reads = 5, polls = 2,
        trace =
          [Polled True,
           KernelCall 0 0 \<lparr>buffer = [5], byteOffset = 0, length_u8 = 1\<rparr>,
           Wrote 0 0 0 (Some 5), KernelDone 40,
           Emitted (DistanceUpdate [Some 5] [DistMs 20] 0),
           TopKCall [Some 5] 0 1024 0, Emitted (TopKUpdate 1), Yielded,
           Polled True, TopKCall [Some 5] 0 1024 0,
           Emitted (FinalUpdate [Some 5] [DistMs 20, TopkMs 20] 1)]\<rparr>"

text \<open>
  A shard of two chunks and a shard of one chunk, 10 ms per reading, and a predicate
  that answers "stop" from its second call on.
\<close>

definition demo_cancelled :: "(int, nat) state" where
  "demo_cancelled =
     \<lparr>dists = [Some 5, None, None], lastPaint = 40,
        timingStrings = [DistMs 10, TopkMs 10], clock_reads = 5, polls = 4,
        trace =
          [Polled True,
           KernelCall 0 0 \<lparr>buffer = [5, 6], byteOffset = 0, length_u8 = 1\<rparr>,
           Wrote 0 0 0 (Some 5), KernelDone 20,
           Emitted (DistanceUpdate [Some 5, None, None] [DistMs 10] 0),
           TopKCall [Some 5, None, None] 0 1024 1, Emitted (TopKUpdate 1),
           Yielded, Polled False, Polled False, Polled False]\<rparr>"

text \<open>
  The same shards and clock, and a predicate that answers "stop" at its second call
  only.
\<close>

definition demo_flaky :: "(int, nat) state" where
  "demo_flaky =
     \<lparr>dists = [Some 5, None, Some 7], lastPaint = 40,
        timingStrings = [DistMs 10, TopkMs 10, DistMs 10], clock_reads = 7,
        polls = 4,
        trace =
          [Polled True,
           KernelCall 0 0 \<lparr>buffer = [5, 6], byteOffset = 0, length_u8 = 1\<rparr>,
           Wrote 0 0 0 (Some 5), KernelDone 20,
           Emitted (DistanceUpdate [Some 5, None, None] [DistMs 10] 0),
           TopKCall [Some 5, None, None] 0 1024 1, Emitted (TopKUpdate 1),
           Yielded, Polled False, Polled True,
           KernelCall 1 0 \<lparr>buffer = [7], byteOffset = 0, length_u8 = 1\<rparr>,
           Wrote 1 0 2 (Some 7), KernelDone 60,
           Emitted
            (DistanceUpdate [Some 5, None, Some 7]
              [DistMs 10, TopkMs 10, DistMs 10] 40),
           Polled True, TopKCall [Some 5, None, Some 7] 0 1024 1,
           Emitted
            (FinalUpdate [Some 5, None, Some 7]
              [DistMs 10, TopkMs 10, DistMs 10] 2)]\<rparr>"

text \<open>
  The same shards, 20 ms per reading, no cancellation.
\<close>

definition demo_three_chunks :: "(int, nat) state" where
  "demo_three_chunks =
     \<lparr>dists = [Some 5, Some 6, Some 7], lastPaint = 240,
        timingStrings =
          [DistMs 20, TopkMs 20, DistMs 20, TopkMs 20, DistMs 20, TopkMs 20],
        clock_reads = 13, polls = 4,
        trace =
          [Polled True,
           KernelCall 0 0 \<lparr>buffer = [5, 6], byteOffset = 0, length_u8 = 1\<rparr>,
           Wrote 0 0 0 (Some 5), KernelDone 40,
           Emitted (DistanceUpdate [Some 5, None, None] [DistMs 20] 0),
           TopKCall [Some 5, None, None] 0 1024 1, Emitted (TopKUpdate 1),
           Yielded, Polled True,
           KernelCall 0 1 \<lparr>buffer = [5, 6], byteOffset = 1, length_u8 = 1\<rparr>,
           Wrote 0 1 1 (Some 6), KernelDone 120,
           Emitted
            (DistanceUpdate [Some 5, Some 6, None]
              [DistMs 20, TopkMs 20, DistMs 20] 80),
           TopKCall [Some 5, Some 6, None] 0 1024 1, Emitted (TopKUpdate 2),
           Yielded, Polled True,
           KernelCall 1 0 \<lparr>buffer = [7], byteOffset = 0, length_u8 = 1\<rparr>,
           Wrote 1 0 2 (Some 7), KernelDone 200,
           Emitted
            (DistanceUpdate [Some 5, Some 6, Some 7]
              [DistMs 20, TopkMs 20, DistMs 20, TopkMs 20, DistMs 20] 160),
           TopKCall [Some 5, Some 6, Some 7] 0 1024 1,
           Emitted (TopKUpdate 3), Yielded, Polled True,
           TopKCall [Some 5, Some 6, Some 7] 0 1024 1,
           Emitted
            (FinalUpdate [Some 5, Some 6, Some 7]
              [DistMs 20, TopkMs 20, DistMs 20, TopkMs 20, DistMs 20,
               TopkMs 20]
              3)]\<rparr>"


text \<open>
  A top-k engine that rejects \<open>k = 0\<close>, and the state in which the run of
  \<open>demo_one_chunk\<close> with \<open>k = 0\<close> is rejected by it.
\<close>

definition demo_strict_topk :: "(int, nat) topk_session" where
  "demo_strict_topk d col fv fz fs kk =
     (if kk = [0] then Inl InvalidKError else demo_topk d col fv fz fs kk)"

definition demo_rejected :: "(int, nat) state" where
  "demo_rejected =
     \<lparr>dists = [Some 5], lastPaint = 0, timingStrings = [DistMs 20], clock_reads = 3,
      polls = 1,
      trace =
        [Polled True,
         KernelCall 0 0 \<lparr>buffer = [5], byteOffset = 0, length_u8 = 1\<rparr>,
         Wrote 0 0 0 (Some 5), KernelDone 40,
         Emitted (DistanceUpdate [Some 5] [DistMs 20] 0),
         TopKCall [Some 5] 0 1024 0]\<rparr>"

section \<open>Facts about flattenCodebook\<close>

lemma collect_Inr:
  assumes "\<And>i. i \<in> set js \<Longrightarrow> f i = Inr (g i)"
  shows "collect f js = Inr (map g js)"
  using assms by (induction js) simp_all

lemma collect_Inl_source:
  "collect f js = Inl e \<Longrightarrow> \<exists>i\<in>set js. f i = Inl e"
  by (induction js) (auto split: sum.splits)

lemma collect_Inr_all:
  "collect f js = Inr vs \<Longrightarrow> \<forall>i\<in>set js. \<exists>v. f i = Inr v"
  by (induction js arbitrary: vs) (auto split: sum.splits)

lemma flat_index_decompose:
  fixes s c d n1 n2 :: nat
  assumes "c < n1" and "d < n2"
  shows "((s * n1 + c) * n2 + d) div n1 div n2 = s"
    and "(((s * n1 + c) * n2 + d) div n2) mod n1 = c"
    and "((s * n1 + c) * n2 + d) mod n2 = d"
proof -
  have a: "((s * n1 + c) * n2 + d) div n2 = s * n1 + c"
    using assms by simp
  have "((s * n1 + c) * n2 + d) div n1 div n2 = ((s * n1 + c) * n2 + d) div (n1 * n2)"
    by (rule div_mult2_eq [symmetric])
  also have "\<dots> = ((s * n1 + c) * n2 + d) div (n2 * n1)"
    by (simp only: mult.commute)
  also have "\<dots> = ((s * n1 + c) * n2 + d) div n2 div n1"
    by (rule div_mult2_eq)
  also have "\<dots> = s" using a assms by simp
  finally show "((s * n1 + c) * n2 + d) div n1 div n2 = s" .
  show "(((s * n1 + c) * n2 + d) div n2) mod n1 = c" using a assms by simp
  show "((s * n1 + c) * n2 + d) mod n2 = d" using assms by simp
qed

lemma flat_index_bound:
  fixes s c d n0 n1 n2 :: nat
  assumes "s < n0" and "c < n1" and "d < n2"
  shows "(s * n1 + c) * n2 + d < n0 * n1 * n2"
proof -
  have "s * n1 + c < n0 * n1"
  proof -
    have "s * n1 + c < s * n1 + n1" using assms by simp
    also have "\<dots> = Suc s * n1" by simp
    also have "\<dots> \<le> n0 * n1" using assms by (intro mult_le_mono1) simp
    finally show ?thesis .
  qed
  then have "Suc (s * n1 + c) \<le> n0 * n1" by simp
  then have "Suc (s * n1 + c) * n2 \<le> n0 * n1 * n2" by (rule mult_le_mono1)
  moreover have "(s * n1 + c) * n2 + d < Suc (s * n1 + c) * n2" using assms by simp
  ultimately show ?thesis by linarith
qed

lemma flat_index_group:
  fixes i n0 n1 n2 :: nat
  assumes "i < n0 * n1 * n2"
  shows "i div n1 div n2 < n0"
proof -
  have "i div n1 div n2 = i div (n1 * n2)" by (simp add: div_mult2_eq)
  moreover have "i < n0 * (n1 * n2)" using assms by (simp add: mult.assoc)
  then have "i div (n1 * n2) < n0"
    by (metis less_mult_imp_div_less mult.commute)
  ultimately show ?thesis by simp
qed

lemma codebk_entry_rect:
  assumes rect: "rectangular cb n1 n2" and i: "i < length cb * n1 * n2"
  shows "codebk_entry cb n1 n2 i =
           Inr (Some (cb ! (i div n1 div n2) ! ((i div n2) mod n1) ! (i mod n2)))"
proof -
  from i have n1: "0 < n1" and n2: "0 < n2" by (auto intro: Nat.gr0I)
  have s: "i div n1 div n2 < length cb" using i by (rule flat_index_group)
  let ?g = "cb ! (i div n1 div n2)"
  from rect s have g: "length ?g = n1" and cs: "list_all (\<lambda>c. length c = n2) ?g"
    by (auto simp: rectangular_def list_all_length)
  have c: "(i div n2) mod n1 < length ?g" using g n1 by simp
  with cs have "length (?g ! ((i div n2) mod n1)) = n2" by (simp add: list_all_length)
  with n2 have d: "i mod n2 < length (?g ! ((i div n2) mod n1))" by simp
  show ?thesis using s c d by (simp add: codebk_entry_def at_index_def)
qed

lemma codebk_entry_error: "codebk_entry cb n1 n2 i = Inl e \<Longrightarrow> e = TypeError"
  by (auto simp: codebk_entry_def split: option.splits)

lemma codebk_entry_wide:
  assumes wide: "\<forall>g\<in>set cb. n1 \<le> length g" and i: "i < length cb * n1 * n2"
  shows "codebk_entry cb n1 n2 i =
           Inr (at_index (cb ! (i div n1 div n2) ! ((i div n2) mod n1)) (i mod n2))"
proof -
  from i have n1: "0 < n1" by (auto intro: Nat.gr0I)
  have s: "i div n1 div n2 < length cb" using i by (rule flat_index_group)
  then have "cb ! (i div n1 div n2) \<in> set cb" by simp
  with wide have "n1 \<le> length (cb ! (i div n1 div n2))" by blast
  moreover have "(i div n2) mod n1 < n1" using n1 by simp
  ultimately have c: "(i div n2) mod n1 < length (cb ! (i div n1 div n2))" by linarith
  show ?thesis using s c by (simp add: codebk_entry_def at_index_def)
qed

lemma codebk_entry_short:
  assumes s: "s < length cb" and short: "length (cb ! s) < n1" and n2: "0 < n2"
  shows "codebk_entry cb n1 n2 ((s * n1 + length (cb ! s)) * n2) = Inl TypeError"
proof -
  have "((s * n1 + length (cb ! s)) * n2 + 0) div n1 div n2 = s"
    and "(((s * n1 + length (cb ! s)) * n2 + 0) div n2) mod n1 = length (cb ! s)"
    using short n2 by (rule flat_index_decompose)+
  then show ?thesis using s by (simp add: codebk_entry_def at_index_def)
qed

lemma upt_4: "[0..<4] = [0, 1, 2, 3 :: nat]"
  by (simp add: upt_rec)

lemma powi_less_exp:
  assumes "(2::real) powi m < 2 powi n"
  shows "m < n"
proof (rule ccontr)
  assume "\<not> m < n"
  then have "n \<le> m" by simp
  then have "(2::real) powi n \<le> 2 powi m" by (intro power_int_increasing) simp_all
  with assms show False by simp
qed

lemma exponent_search_eq:
  "2 powi e \<le> a \<Longrightarrow> a < 2 powi (e + 1) \<Longrightarrow> - 126 \<le> e \<Longrightarrow> e \<le> e0
     \<Longrightarrow> exponent_search e0 a = e"
proof (induction e0 a rule: exponent_search.induct)
  case (1 e0 a)
  note lo = 1(2) and hi = 1(3) and e = 1(4) and le = 1(5)
  show ?case
  proof (cases "e0 \<le> - 126")
    case True
    with e le show ?thesis by (subst exponent_search.simps) simp
  next
    case False
    show ?thesis
    proof (cases "(2::real) powi e0 \<le> a")
      case True
      from True hi have "(2::real) powi e0 < 2 powi (e + 1)" by (rule le_less_trans)
      then have "e0 < e + 1" by (rule powi_less_exp)
      with le have "e0 = e" by simp
      with True False show ?thesis by (subst exponent_search.simps) simp
    next
      case nle: False
      then have "a < 2 powi e0" by simp
      with lo have "(2::real) powi e < 2 powi e0" by (rule le_less_trans)
      then have "e < e0" by (rule powi_less_exp)
      then have "e \<le> e0 - 1" by simp
      with 1(1) False nle lo hi e have "exponent_search (e0 - 1) a = e" by simp
      with False nle show ?thesis by (subst exponent_search.simps) simp
    qed
  qed
qed

lemma float32_exponent_eq:
  "2 powi e \<le> a \<Longrightarrow> a < 2 powi (e + 1) \<Longrightarrow> - 126 \<le> e \<Longrightarrow> e \<le> 127
     \<Longrightarrow> float32_exponent a = e"
  unfolding float32_exponent_def by (rule exponent_search_eq)

text \<open>A number \<open>m * 2^(e - 23)\<close> of the normal range is stored unchanged.\<close>

lemma fround_exact:
  assumes lo: "2 powi e \<le> \<bar>x\<bar>" and hi: "\<bar>x\<bar> < 2 powi (e + 1)"
    and e: "- 126 \<le> e" "e \<le> 127"
    and m: "\<bar>x\<bar> * 2 ^ 23 = of_int m * 2 powi e"
  shows "fround (Finite x) = Finite x"
proof -
  have ex: "float32_exponent \<bar>x\<bar> = e" using lo hi e by (rule float32_exponent_eq)
  have q: "(2::real) powi (e - 23) = 2 powi e / 2 ^ 23" by (simp add: power_int_diff)
  have pe: "(2::real) powi e > 0" by simp
  have d: "\<bar>x\<bar> / 2 powi (e - 23) = of_int m"
    unfolding q using m pe by (simp add: field_simps)
  have rt: "roundTiesToEven (of_int m) = m" by (simp add: roundTiesToEven_def)
  have r: "of_int m * 2 powi (e - 23) = \<bar>x\<bar>"
    unfolding q using m by (simp add: field_simps)
  from lo pe have pos: "\<bar>x\<bar> \<noteq> 0" by linarith
  have "(2::real) powi (e + 1) \<le> 2 powi 128" using e by (intro power_int_increasing) simp_all
  then have small: "\<not> 2 ^ 128 \<le> \<bar>x\<bar>" using hi by simp
  have "fround_finite x = Finite (if x < 0 then - \<bar>x\<bar> else \<bar>x\<bar>)"
    unfolding fround_finite_def Let_def ex d rt r using pos small by (simp only: if_False)
  then show ?thesis by simp
qed

lemma fround_digits:
  "fround_finite 1 = Finite 1" "fround_finite 2 = Finite 2"
  "fround_finite 3 = Finite 3" "fround_finite 4 = Finite 4"
  "fround_finite 5 = Finite 5" "fround_finite 6 = Finite 6"
  "fround_finite (- 3) = Finite (- 3)"
proof -
  show "fround_finite 1 = Finite 1"
    using fround_exact [of 0 1 "2 ^ 23"] by simp
  show "fround_finite 2 = Finite 2"
    using fround_exact [of 1 2 "2 ^ 23"] by simp
  show "fround_finite 3 = Finite 3"
    using fround_exact [of 1 3 "3 * 2 ^ 22"] by simp
  show "fround_finite 4 = Finite 4"
    using fround_exact [of 2 4 "2 ^ 23"] by simp
  show "fround_finite 5 = Finite 5"
    using fround_exact [of 2 5 "5 * 2 ^ 21"] by simp
  show "fround_finite 6 = Finite 6"
    using fround_exact [of 2 6 "3 * 2 ^ 22"] by simp
  show "fround_finite (- 3) = Finite (- 3)"
    using fround_exact [of 1 "- 3" "3 * 2 ^ 22"] by simp
qed

text \<open>\<open>2^24 + 1\<close> lies half-way between two binary32 values and goes to the even one.\<close>

lemma fround_16777217: "fround_finite 16777217 = Finite 16777216"
proof -
  have ex: "float32_exponent 16777217 = 24"
    by (rule float32_exponent_eq) simp_all
  have fl: "\<lfloor>16777217 / 2 :: real\<rfloor> = 8388608" by linarith
  show ?thesis by (simp add: fround_finite_def ex roundTiesToEven_def fl Let_def)
qed

lemma collect_stored:
  assumes "\<And>i. i \<in> set js \<Longrightarrow> f i = Inr (g i)"
  shows "collect (\<lambda>i. case f i of Inl e \<Rightarrow> Inl e | Inr v \<Rightarrow> Inr (fround (ToNumber v))) js =
           Inr (map (\<lambda>i. fround (ToNumber (g i))) js)"
  by (rule collect_Inr) (simp add: assms)


text \<open>
  Claim C2, as the code has it. For a rectangular codebook with \<open>numCentroids\<close>
  centroids in every group and \<open>subspaceDim\<close> components in every centroid, and for all
  valid \<open>s\<close>, \<open>c\<close>, \<open>d\<close>, \<open>flattenCodebook\<close> returns a buffer of
  \<open>numSubspaces * numCentroids * subspaceDim\<close> entries whose entry
  \<open>(s * numCentroids + c) * subspaceDim + d\<close> is \<open>codebook[s][c][d]\<close> rounded to
  binary32; it \<open>==\<close> the codebook's entry exactly when the rounding leaves that entry
  as it is.
\<close>

theorem flattenCodebook_roundtrip:
  assumes rect: "rectangular cb numCentroids subspaceDim"
    and s: "s < length cb" and c: "c < numCentroids" and d: "d < subspaceDim"
  shows "\<exists>flat. flattenCodebook cb = Inr flat
           \<and> length flat = length cb * numCentroids * subspaceDim
           \<and> flat ! ((s * numCentroids + c) * subspaceDim + d) = fround (cb ! s ! c ! d)
           \<and> number_equal (flat ! ((s * numCentroids + c) * subspaceDim + d)) (cb ! s ! c ! d)
               = number_equal (fround (cb ! s ! c ! d)) (cb ! s ! c ! d)"
proof -
  let ?n = "length cb * numCentroids * subspaceDim"
  let ?g = "\<lambda>i. Some (cb ! (i div numCentroids div subspaceDim)
                 ! ((i div subspaceDim) mod numCentroids) ! (i mod subspaceDim))"
  from s obtain g0 gs where cb: "cb = g0 # gs" by (cases cb) auto
  with rect have g0: "length g0 = numCentroids" and cs: "list_all (\<lambda>c. length c = subspaceDim) g0"
    by (auto simp: rectangular_def)
  with c obtain c0 cs0 where g0c: "g0 = c0 # cs0" by (cases g0) auto
  with cs have c0: "length c0 = subspaceDim" by simp
  have "Float32Array_from ?n (codebk_entry cb numCentroids subspaceDim) =
      Inr (map (\<lambda>i. fround (ToNumber (?g i))) [0..<?n])"
    unfolding Float32Array_from_def
    by (rule collect_stored) (simp add: codebk_entry_rect [OF rect])
  then have flat: "flattenCodebook cb = Inr (map (\<lambda>i. fround (ToNumber (?g i))) [0..<?n])"
    using cb g0c g0 c0 by (simp add: flattenCodebook_def)
  have idx: "(s * numCentroids + c) * subspaceDim + d < ?n"
    using s c d by (rule flat_index_bound)
  have "map (\<lambda>i. fround (ToNumber (?g i))) [0..<?n] ! ((s * numCentroids + c) * subspaceDim + d)
      = fround (cb ! s ! c ! d)"
    using idx c d by (simp add: flat_index_decompose [OF c d])
  with flat show ?thesis by simp
qed

theorem flattenCodebook_roundtrip_witness:
  "\<exists>flat. flattenCodebook [[[Finite 1, Finite 2], [Finite 3, Finite 4]],
                            [[Finite 5, Finite 6], [Finite 16777217, Finite (- 3)]]] = Inr flat
     \<and> length flat = 8 \<and> flat ! 5 = Finite 6 \<and> flat ! 6 = Finite 16777216"
  using flattenCodebook_roundtrip
      [of "[[[Finite 1, Finite 2], [Finite 3, Finite 4]],
            [[Finite 5, Finite 6], [Finite 16777217, Finite (- 3)]]]" 2 2 1 0 1]
    flattenCodebook_roundtrip
      [of "[[[Finite 1, Finite 2], [Finite 3, Finite 4]],
            [[Finite 5, Finite 6], [Finite 16777217, Finite (- 3)]]]" 2 2 1 1 0]
  by (auto simp: rectangular_def fround_digits fround_16777217)

text \<open>
  Claim C2 as stated fails: \<open>16777217\<close> is a number but not a binary32 value, and the
  buffer holds \<open>16777216\<close> in its place.
\<close>

theorem flattenCodebook_roundtrip_counterexample:
  "rectangular [[[Finite 16777217, Finite (- 3)]]] 1 2
   \<and> flattenCodebook [[[Finite 16777217, Finite (- 3)]]] = Inr [Finite 16777216, Finite (- 3)]
   \<and> \<not> number_equal (Finite 16777216) (Finite 16777217)"
  by (simp add: rectangular_def flattenCodebook_def Float32Array_from_def codebk_entry_def
      at_index_def number_equal_def upt_rec fround_digits fround_16777217)

text \<open>
  Claim C7, as the code has it. \<open>flattenCodebook\<close> does not check the shape of its
  argument. It raises \<open>TypeError\<close> exactly when the codebook is empty, its first group
  is empty, or the first centroid is not empty and some group has fewer centroids than
  the first group. In every other case it returns a buffer whose size is taken from the
  first group and the first centroid: a component a centroid lacks is \<open>undefined\<close>
  (NaN in the buffer), the others are stored rounded to binary32, and groups, centroids
  and components beyond that size are ignored.
\<close>

theorem flattenCodebook_cases:
  "flattenCodebook cb =
     (if cb = [] \<or> hd cb = []
         \<or> (hd (hd cb) \<noteq> [] \<and> (\<exists>g\<in>set cb. length g < length (hd cb)))
      then Inl TypeError
      else Inr (map (\<lambda>i. fround (ToNumber
                           (at_index (cb ! (i div length (hd cb) div length (hd (hd cb)))
                                         ! ((i div length (hd (hd cb))) mod length (hd cb)))
                              (i mod length (hd (hd cb))))))
                 [0..<length cb * length (hd cb) * length (hd (hd cb))]))"
proof (cases "cb = [] \<or> hd cb = []")
  case True
  then show ?thesis by (auto simp: flattenCodebook_def split: list.splits)
next
  case False
  then obtain g0 gs c0 cs where cb: "cb = g0 # gs" and g0: "g0 = c0 # cs"
    by (cases cb; cases "hd cb") auto
  let ?n1 = "length (hd cb)" and ?n2 = "length (hd (hd cb))"
  let ?N = "length cb * ?n1 * ?n2"
  let ?f = "codebk_entry cb ?n1 ?n2"
  let ?h = "\<lambda>i. case ?f i of Inl e \<Rightarrow> Inl e | Inr v \<Rightarrow> Inr (fround (ToNumber v))"
  have flat: "flattenCodebook cb = collect ?h [0..<?N]"
    using cb g0 by (simp add: flattenCodebook_def Float32Array_from_def)
  show ?thesis
  proof (cases "hd (hd cb) \<noteq> [] \<and> (\<exists>g\<in>set cb. length g < ?n1)")
    case True
    then have n2: "0 < ?n2" by simp
    from True obtain s where s: "s < length cb" and short: "length (cb ! s) < ?n1"
      by (auto simp: in_set_conv_nth)
    let ?i = "(s * ?n1 + length (cb ! s)) * ?n2"
    have "?f ?i = Inl TypeError" using s short n2 by (rule codebk_entry_short)
    then have bad: "?h ?i = Inl TypeError" by simp
    have "?i + 0 < ?N" using s short n2 by (rule flat_index_bound)
    then have mem: "?i \<in> set [0..<?N]" by simp
    have "collect ?h [0..<?N] = Inl TypeError"
    proof (cases "collect ?h [0..<?N]")
      case (Inl e)
      then obtain j where "?h j = Inl e" using collect_Inl_source by blast
      then have "?f j = Inl e" by (simp split: sum.splits)
      then have "e = TypeError" by (rule codebk_entry_error)
      with Inl show ?thesis by simp
    next
      case (Inr vs)
      then have "\<exists>v. ?h ?i = Inr v" using collect_Inr_all mem by blast
      with bad show ?thesis by simp
    qed
    with flat True False show ?thesis by simp
  next
    case notshort: False
    have "collect ?h [0..<?N] =
            Inr (map (\<lambda>i. fround (ToNumber
                   (at_index (cb ! (i div ?n1 div ?n2) ! ((i div ?n2) mod ?n1)) (i mod ?n2))))
                  [0..<?N])"
    proof (rule collect_stored)
      fix i assume "i \<in> set [0..<?N]"
      then have i: "i < ?N" by simp
      then have "0 < ?n2" by (auto intro: Nat.gr0I)
      with notshort have "\<forall>g\<in>set cb. ?n1 \<le> length g" by (auto simp: not_less)
      then show "?f i = Inr (at_index (cb ! (i div ?n1 div ?n2) ! ((i div ?n2) mod ?n1)) (i mod ?n2))"
        using i by (rule codebk_entry_wide)
    qed
    with flat notshort False show ?thesis by simp
  qed
qed

theorem flattenCodebook_cases_witness:
  "flattenCodebook [[[Finite 1, Finite 2]], [[Finite 3, Finite 4], [Finite 5]]] =
     Inr [Finite 1, Finite 2, Finite 3, Finite 4]
   \<and> flattenCodebook [[[Finite 1], [Finite 2]], [[Finite 3]]] = Inl TypeError"
  using flattenCodebook_cases [of "[[[Finite 1, Finite 2]], [[Finite 3, Finite 4], [Finite 5]]]"]
    flattenCodebook_cases [of "[[[Finite 1], [Finite 2]], [[Finite 3]]]"]
  by (simp add: at_index_def upt_4 mod_Suc div_Suc fround_digits)


text \<open>
  Claim C7 as stated fails: the second centroid of this codebook is shorter than the
  first, and a buffer is returned.
\<close>

theorem flattenCodebook_ragged_counterexample:
  "\<not> is_rectangular [[[Finite 1, Finite 2]], [[Finite 3]]]
   \<and> flattenCodebook [[[Finite 1, Finite 2]], [[Finite 3]]] =
       Inr [Finite 1, Finite 2, Finite 3, NaN]"
  by (simp add: is_rectangular_def rectangular_def flattenCodebook_def Float32Array_from_def
      codebk_entry_def at_index_def upt_4 mod_Suc div_Suc fround_digits)

section \<open>The loops of queryToTiledDist\<close>

lemma chunkLoop_rule [consumes 1, case_names exit stop fail step]:
  assumes run: "chunkLoop E P shape ec sh i s = Some r"
    and exit: "\<And>i s. \<not> i * length (codebk P) < length_u8 (data sh) \<Longrightarrow> Q i s (Resolved s)"
    and stop: "\<And>i s. i * length (codebk P) < length_u8 (data sh) \<Longrightarrow> \<not> continueFn P (polls s)
                 \<Longrightarrow> Q i s (Resolved (snd (poll P s)))"
    and fail: "\<And>i s e s2. i * length (codebk P) < length_u8 (data sh) \<Longrightarrow> continueFn P (polls s)
                 \<Longrightarrow> scan_chunk E P shape ec sh i (snd (poll P s)) = Rejected e s2
                 \<Longrightarrow> Q i s (Rejected e s2)"
    and step: "\<And>i s s2 r. i * length (codebk P) < length_u8 (data sh) \<Longrightarrow> continueFn P (polls s)
                 \<Longrightarrow> scan_chunk E P shape ec sh i (snd (poll P s)) = Resolved s2
                 \<Longrightarrow> chunkLoop E P shape ec sh (i + chunkSize E) s2 = Some r
                 \<Longrightarrow> Q (i + chunkSize E) s2 r \<Longrightarrow> Q i s r"
  shows "Q i s r"
proof -
  let ?Pa = "\<lambda>x y. case x of ((((((E', P'), shape'), ec'), sh'), i'), s') \<Rightarrow>
               E' = E \<longrightarrow> P' = P \<longrightarrow> shape' = shape \<longrightarrow> ec' = ec \<longrightarrow> sh' = sh
               \<longrightarrow> chunkLoop E P shape ec sh i' s' = Some y \<and> Q i' s' y"
  have "?Pa ((((((E, P), shape), ec), sh), i), s) r"
  proof (rule chunkLoop.raw_induct [where Pa = ?Pa, OF _ run], goal_cases)
    case (1 f E' P' shape' ec' sh' i' s' y)
    show ?case
    proof (clarsimp, intro conjI)
      assume eqs: "E' = E" "P' = P" "shape' = shape" "ec' = ec" "sh' = sh"
      note body = 1(2) [unfolded eqs]
      have ih: "f E P shape ec sh j t = Some z \<Longrightarrow> chunkLoop E P shape ec sh j t = Some z \<and> Q j t z"
        for j t z using 1(1) [of E P shape ec sh j t z] by simp
      show "chunkLoop E P shape ec sh i' s' = Some y"
        using body ih
        by (subst chunkLoop.simps) (auto split: if_splits prod.splits outcome.splits)
      show "Q i' s' y"
      proof (cases "i' * length (codebk P) < length_u8 (data sh)")
        case False
        with body have "y = Resolved s'" by simp
        with False exit show ?thesis by simp
      next
        case inside: True
        show ?thesis
        proof (cases "continueFn P (polls s')")
          case False
          with inside body have "y = Resolved (snd (poll P s'))" by (simp add: poll_def)
          with inside False stop show ?thesis by simp
        next
          case go: True
          show ?thesis
          proof (cases "scan_chunk E P shape ec sh i' (snd (poll P s'))")
            case (Rejected e s2)
            with inside go body have "y = Rejected e s2" by (simp add: poll_def)
            with inside go Rejected fail show ?thesis by simp
          next
            case (Resolved s2)
            with inside go body have "f E P shape ec sh (i' + chunkSize E) s2 = Some y"
              by (simp add: poll_def)
            then have "chunkLoop E P shape ec sh (i' + chunkSize E) s2 = Some y"
              and "Q (i' + chunkSize E) s2 y" using ih by blast+
            with inside go Resolved show ?thesis by (rule step)
          qed
        qed
      qed
    qed
  qed
  then show ?thesis by simp
qed

lemma log_event_simps [simp]:
  "trace (log_event e s) = trace s @ [e]"
  "dists (log_event e s) = dists s"
  "lastPaint (log_event e s) = lastPaint s"
  "timingStrings (log_event e s) = timingStrings s"
  "clock_reads (log_event e s) = clock_reads s"
  "polls (log_event e s) = polls s"
  by (simp_all add: log_event_def)

lemma intermediateValueFn_simps [simp]:
  "trace (intermediateValueFn u s) = trace s @ [Emitted u]"
  "dists (intermediateValueFn u s) = dists s"
  "lastPaint (intermediateValueFn u s) = lastPaint s"
  "timingStrings (intermediateValueFn u s) = timingStrings s"
  "clock_reads (intermediateValueFn u s) = clock_reads s"
  "polls (intermediateValueFn u s) = polls s"
  by (simp_all add: intermediateValueFn_def)

lemma write_at_simps [simp]:
  "trace (write_at ec i x v s) = trace s @ [Wrote ec i x v]"
  "dists (write_at ec i x v s) = (dists s)[x := v]"
  "lastPaint (write_at ec i x v s) = lastPaint s"
  "timingStrings (write_at ec i x v s) = timingStrings s"
  "clock_reads (write_at ec i x v s) = clock_reads s"
  "polls (write_at ec i x v s) = polls s"
  by (simp_all add: write_at_def)

lemma fold_write_at:
  "trace (fold (\<lambda>j. write_at ec i (f j) (g j)) js s) = trace s @ map (\<lambda>j. Wrote ec i (f j) (g j)) js"
  "lastPaint (fold (\<lambda>j. write_at ec i (f j) (g j)) js s) = lastPaint s"
  "timingStrings (fold (\<lambda>j. write_at ec i (f j) (g j)) js s) = timingStrings s"
  "clock_reads (fold (\<lambda>j. write_at ec i (f j) (g j)) js s) = clock_reads s"
  "polls (fold (\<lambda>j. write_at ec i (f j) (g j)) js s) = polls s"
  "dists (fold (\<lambda>j. write_at ec i (f j) (g j)) js s) = fold (\<lambda>j d. d[f j := g j]) js (dists s)"
  by (induction js arbitrary: s) simp_all

lemma write_tile_simps [simp]:
  "trace (write_tile E ec off i distTile s) =
     trace s @ map (\<lambda>j. Wrote ec i (off + i + j) (at_index distTile j)) [0..<chunkSize E]"
  "lastPaint (write_tile E ec off i distTile s) = lastPaint s"
  "timingStrings (write_tile E ec off i distTile s) = timingStrings s"
  "clock_reads (write_tile E ec off i distTile s) = clock_reads s"
  "polls (write_tile E ec off i distTile s) = polls s"
  "dists (write_tile E ec off i distTile s) =
     fold (\<lambda>j d. d[off + i + j := at_index distTile j]) [0..<chunkSize E] (dists s)"
  by (simp_all add: write_tile_def fold_write_at)

lemma poll_simps [simp]:
  "fst (poll P s) = continueFn P (polls s)"
  "trace (snd (poll P s)) = trace s @ [Polled (continueFn P (polls s))]"
  "dists (snd (poll P s)) = dists s"
  "lastPaint (snd (poll P s)) = lastPaint s"
  "timingStrings (snd (poll P s)) = timingStrings s"
  "clock_reads (snd (poll P s)) = clock_reads s"
  "polls (snd (poll P s)) = Suc (polls s)"
  by (simp_all add: poll_def)

lemma Date_now_simps [simp]:
  "fst (Date_now P s) = now P (clock_reads s)"
  "trace (snd (Date_now P s)) = trace s"
  "dists (snd (Date_now P s)) = dists s"
  "lastPaint (snd (Date_now P s)) = lastPaint s"
  "timingStrings (snd (Date_now P s)) = timingStrings s"
  "clock_reads (snd (Date_now P s)) = Suc (clock_reads s)"
  "polls (snd (Date_now P s)) = polls s"
  by (simp_all add: Date_now_def)

lemma call_distTopK_simps [simp]:
  "fst (call_distTopK P fz fs s) =
     distTopK (filteredtopkinf P) (dists s) (firstLetters P) (firstLetterInt P) fz fs (topk_k P)"
  "trace (snd (call_distTopK P fz fs s)) = trace s @ [TopKCall (dists s) fz fs (topk_k P)]"
  "dists (snd (call_distTopK P fz fs s)) = dists s"
  "lastPaint (snd (call_distTopK P fz fs s)) = lastPaint s"
  "timingStrings (snd (call_distTopK P fz fs s)) = timingStrings s"
  "clock_reads (snd (call_distTopK P fz fs s)) = clock_reads s"
  "polls (snd (call_distTopK P fz fs s)) = polls s"
  by (simp_all add: call_distTopK_def)

lemma deliver_tile_simps [simp]:
  "fst (deliver_tile E P ec sh i startTime distTile s) = now P (clock_reads s)"
  "trace (snd (deliver_tile E P ec sh i startTime distTile s)) =
     trace s @ map (\<lambda>j. Wrote ec i (offset sh + i + j) (at_index distTile j)) [0..<chunkSize E]
       @ [KernelDone (now P (clock_reads s)),
          Emitted (DistanceUpdate
            (fold (\<lambda>j d. d[offset sh + i + j := at_index distTile j]) [0..<chunkSize E] (dists s))
            (timingStrings s @ [DistMs (now P (clock_reads s) - startTime)]) (lastPaint s))]"
  "dists (snd (deliver_tile E P ec sh i startTime distTile s)) =
     fold (\<lambda>j d. d[offset sh + i + j := at_index distTile j]) [0..<chunkSize E] (dists s)"
  "lastPaint (snd (deliver_tile E P ec sh i startTime distTile s)) = lastPaint s"
  "timingStrings (snd (deliver_tile E P ec sh i startTime distTile s)) =
     timingStrings s @ [DistMs (now P (clock_reads s) - startTime)]"
  "clock_reads (snd (deliver_tile E P ec sh i startTime distTile s)) = Suc (clock_reads s)"
  "polls (snd (deliver_tile E P ec sh i startTime distTile s)) = polls s"
  by (simp_all add: deliver_tile_def Date_now_def Let_def)

text \<open>The recomputation inside the scan, spelled out.\<close>

lemma repaint_Inl:
  assumes "distTopK (filteredtopkinf P) (dists s) (firstLetters P) (firstLetterInt P) 0 1024 (topk_k P) = Inl e"
  shows "repaint P distTime s = Rejected e (log_event (TopKCall (dists s) 0 1024 (topk_k P)) s)"
  using assms by (simp add: repaint_def call_distTopK_def)

lemma repaint_Inr:
  assumes "distTopK (filteredtopkinf P) (dists s) (firstLetters P) (firstLetterInt P) 0 1024 (topk_k P) = Inr topk"
  shows "\<exists>s'. repaint P distTime s = Resolved s'
           \<and> trace s' = trace s @ [TopKCall (dists s) 0 1024 (topk_k P), Emitted (TopKUpdate topk), Yielded]
           \<and> dists s' = dists s
           \<and> lastPaint s' = now P (Suc (clock_reads s))
           \<and> timingStrings s' = timingStrings s @ [TopkMs (now P (clock_reads s) - distTime)]
           \<and> clock_reads s' = Suc (Suc (clock_reads s))
           \<and> polls s' = polls s"
  using assms by (simp add: repaint_def call_distTopK_def Date_now_def Let_def)

lemma delivered_simps [simp]:
  "trace (delivered E P ec sh i tile distTile s) =
     trace s @ KernelCall ec i tile
       # map (\<lambda>j. Wrote ec i (offset sh + i + j) (at_index distTile j)) [0..<chunkSize E]
       @ [KernelDone (now P (Suc (clock_reads s))),
          Emitted (DistanceUpdate
            (fold (\<lambda>j d. d[offset sh + i + j := at_index distTile j]) [0..<chunkSize E] (dists s))
            (timingStrings s @ [DistMs (now P (Suc (clock_reads s)) - now P (clock_reads s))])
            (lastPaint s))]"
  "dists (delivered E P ec sh i tile distTile s) =
     fold (\<lambda>j d. d[offset sh + i + j := at_index distTile j]) [0..<chunkSize E] (dists s)"
  "lastPaint (delivered E P ec sh i tile distTile s) = lastPaint s"
  "timingStrings (delivered E P ec sh i tile distTile s) =
     timingStrings s @ [DistMs (now P (Suc (clock_reads s)) - now P (clock_reads s))]"
  "clock_reads (delivered E P ec sh i tile distTile s) = Suc (Suc (clock_reads s))"
  "polls (delivered E P ec sh i tile distTile s) = polls s"
  by (simp_all add: delivered_def)

lemma scan_chunk_cases [case_names range kernel delivered]:
  obtains
    (range) e where "embeddingTile_of E P sh i = Inl e"
      and "scan_chunk E P shape ec sh i s = Rejected e (snd (Date_now P s))"
  | (kernel) tile e where "embeddingTile_of E P sh i = Inr tile"
      and "call_queryDist E P shape tile = Inl e"
      and "scan_chunk E P shape ec sh i s =
             Rejected e (log_event (KernelCall ec i tile) (snd (Date_now P s)))"
  | (delivered) tile distTile where "embeddingTile_of E P sh i = Inr tile"
      and "call_queryDist E P shape tile = Inr distTile"
      and "scan_chunk E P shape ec sh i s =
             (if repaint_due E P ec i s
              then repaint P (now P (Suc (clock_reads s))) (delivered E P ec sh i tile distTile s)
              else Resolved (delivered E P ec sh i tile distTile s))"
proof (cases "embeddingTile_of E P sh i")
  case (Inl e)
  then have "scan_chunk E P shape ec sh i s = Rejected e (snd (Date_now P s))"
    by (simp add: scan_chunk_def Date_now_def)
  with Inl show ?thesis by (rule range)
next
  case tile: (Inr tile)
  show ?thesis
  proof (cases "call_queryDist E P shape tile")
    case (Inl e)
    with tile have "scan_chunk E P shape ec sh i s =
        Rejected e (log_event (KernelCall ec i tile) (snd (Date_now P s)))"
      by (simp add: scan_chunk_def Date_now_def)
    with tile Inl show ?thesis by (rule kernel)
  next
    case (Inr distTile)
    with tile have "scan_chunk E P shape ec sh i s =
             (if repaint_due E P ec i s
              then repaint P (now P (Suc (clock_reads s))) (delivered E P ec sh i tile distTile s)
              else Resolved (delivered E P ec sh i tile distTile s))"
      by (simp add: scan_chunk_def delivered_def repaint_due_def Date_now_def split: prod.splits)
        (auto simp: deliver_tile_def Date_now_def Let_def)
    with tile Inr show ?thesis by (rule delivered)
  qed
qed

lemma repaint_events:
  "\<exists>evs. trace (state_of (repaint P distTime s)) = trace s @ evs \<and> list_all chunk_event evs"
proof (cases "distTopK (filteredtopkinf P) (dists s) (firstLetters P) (firstLetterInt P) 0 1024 (topk_k P)")
  case (Inl e)
  then show ?thesis by (simp add: repaint_Inl)
next
  case (Inr topk)
  from repaint_Inr [OF this, of distTime] show ?thesis by auto
qed

lemma repaint_polls: "polls (state_of (repaint P distTime s)) = polls s"
proof (cases "distTopK (filteredtopkinf P) (dists s) (firstLetters P) (firstLetterInt P) 0 1024 (topk_k P)")
  case (Inl e)
  then show ?thesis by (simp add: repaint_Inl)
next
  case (Inr topk)
  from repaint_Inr [OF this, of distTime] show ?thesis by auto
qed

lemma scan_chunk_events:
  "\<exists>evs. trace (state_of (scan_chunk E P shape ec sh i s)) = trace s @ evs \<and> list_all chunk_event evs"
proof (cases rule: scan_chunk_cases [of E P sh i shape ec s])
  case (range e)
  then show ?thesis by simp
next
  case (kernel tile e)
  then show ?thesis by simp
next
  case (delivered tile distTile)
  let ?d = "delivered E P ec sh i tile distTile s"
  obtain evs where "trace (state_of (repaint P (now P (Suc (clock_reads s))) ?d)) = trace ?d @ evs"
    and "list_all chunk_event evs" using repaint_events by blast
  with delivered(3) show ?thesis by (simp add: list_all_iff) auto
qed

lemma scan_chunk_polls: "polls (state_of (scan_chunk E P shape ec sh i s)) = polls s"
  by (cases rule: scan_chunk_cases [of E P sh i shape ec s]) (simp_all add: repaint_polls)

lemma chunkLoop_preorder:
  assumes run: "chunkLoop E P shape ec sh i s = Some r"
    and refl: "\<And>s. R s s"
    and trans: "\<And>a b c. R a b \<Longrightarrow> R b c \<Longrightarrow> R a c"
    and stop: "\<And>s. \<not> continueFn P (polls s) \<Longrightarrow> R s (snd (poll P s))"
    and step: "\<And>i s. continueFn P (polls s)
                 \<Longrightarrow> R s (state_of (scan_chunk E P shape ec sh i (snd (poll P s))))"
  shows "R s (state_of r)"
  using run
proof (induction rule: chunkLoop_rule)
  case (exit i s)
  show ?case by (simp add: refl)
next
  case (stop i s)
  then show ?case by (simp add: assms(4))
next
  case (fail i s e s2)
  from step [OF fail(2), of i] fail(3) show ?case by simp
next
  case (step i s s2 r)
  from assms(5) [OF step(2), of i] step(3) have "R s s2" by simp
  with step.IH show ?case by (blast intro: trans)
qed

lemma shardLoop_preorder:
  assumes run: "shardLoop E P shape ec shards s = Some r"
    and refl: "\<And>s. R s s"
    and trans: "\<And>a b c. R a b \<Longrightarrow> R b c \<Longrightarrow> R a c"
    and stop: "\<And>s. \<not> continueFn P (polls s) \<Longrightarrow> R s (snd (poll P s))"
    and step: "\<And>ec sh i s. continueFn P (polls s)
                 \<Longrightarrow> R s (state_of (scan_chunk E P shape ec sh i (snd (poll P s))))"
  shows "R s (state_of r)"
  using run
proof (induction shards arbitrary: ec s)
  case Nil
  then show ?case by (auto simp: refl)
next
  case (Cons sh rest)
  from Cons.prems obtain r1 where r1: "chunkLoop E P shape ec sh 0 s = Some r1"
    by (auto split: option.splits)
  have a: "R s (state_of r1)"
    using r1 refl trans stop step by (rule chunkLoop_preorder [where R = R])
  show ?case
  proof (cases r1)
    case (Rejected e s1)
    with Cons.prems r1 a show ?thesis by auto
  next
    case (Resolved s1)
    with Cons.prems r1 have "shardLoop E P shape (Suc ec) rest s1 = Some r" by simp
    then have "R s1 (state_of r)" by (rule Cons.IH)
    with a Resolved show ?thesis by (auto intro: trans)
  qed
qed

lemma queryToTiledDist_cases [consumes 1, case_names shape scan finish]:
  assumes "queryToTiledDist E P embeddings d0 ec0 = Some r"
  obtains
    (shape) e where "codebookshape_of (codebk P) = Inl e" and "r = Rejected e (start_state P d0)"
  | (scan) shape e s1 where "codebookshape_of (codebk P) = Inr shape"
      and "shardLoop E P shape ec0 (drop ec0 embeddings) (start_state P d0) = Some (Rejected e s1)"
      and "r = Rejected e s1"
  | (finish) shape s1 where "codebookshape_of (codebk P) = Inr shape"
      and "shardLoop E P shape ec0 (drop ec0 embeddings) (start_state P d0) = Some (Resolved s1)"
      and "r = finish P s1"
  using assms
  by (auto simp: queryToTiledDist_def split: sum.splits option.splits outcome.splits)

lemma finish_cases [case_names cancelled failed final]:
  obtains
    (cancelled) "\<not> continueFn P (polls s)" and "finish P s = Resolved (snd (poll P s))"
  | (failed) e where "continueFn P (polls s)"
      and "distTopK (filteredtopkinf P) (dists s) (firstLetters P) (firstLetterInt P) 0 1024 (topk_k P) = Inl e"
      and "finish P s = Rejected e (snd (call_distTopK P 0 1024 (snd (poll P s))))"
  | (final) topk where "continueFn P (polls s)"
      and "distTopK (filteredtopkinf P) (dists s) (firstLetters P) (firstLetterInt P) 0 1024 (topk_k P) = Inr topk"
      and "finish P s =
             Resolved (intermediateValueFn (FinalUpdate (dists s) (timingStrings s) topk)
                         (snd (call_distTopK P 0 1024 (snd (poll P s)))))"
proof (cases "continueFn P (polls s)")
  case False
  then have "finish P s = Resolved (snd (poll P s))" by (simp add: finish_def poll_def)
  with False show ?thesis by (rule cancelled)
next
  case True
  show ?thesis
  proof (cases "distTopK (filteredtopkinf P) (dists s) (firstLetters P) (firstLetterInt P) 0 1024 (topk_k P)")
    case (Inl e)
    with True have "finish P s = Rejected e (snd (call_distTopK P 0 1024 (snd (poll P s))))"
      by (simp add: finish_def poll_def call_distTopK_def)
    with True Inl show ?thesis by (rule failed)
  next
    case (Inr topk)
    with True have "finish P s =
             Resolved (intermediateValueFn (FinalUpdate (dists s) (timingStrings s) topk)
                         (snd (call_distTopK P 0 1024 (snd (poll P s)))))"
      by (simp add: finish_def poll_def call_distTopK_def)
    with True Inr show ?thesis by (rule final)
  qed
qed

lemma run_preorder:
  assumes run: "queryToTiledDist E P embeddings d0 ec0 = Some r"
    and refl: "\<And>s. R s s"
    and trans: "\<And>a b c. R a b \<Longrightarrow> R b c \<Longrightarrow> R a c"
    and stop: "\<And>s. \<not> continueFn P (polls s) \<Longrightarrow> R s (snd (poll P s))"
    and step: "\<And>shape ec sh i s. continueFn P (polls s)
                 \<Longrightarrow> R s (state_of (scan_chunk E P shape ec sh i (snd (poll P s))))"
    and fin: "\<And>s. R s (state_of (finish P s))"
  shows "R (start_state P d0) (state_of r)"
  using run
proof (cases rule: queryToTiledDist_cases)
  case (shape e)
  then show ?thesis by (simp add: refl)
next
  case (scan shape e s1)
  from scan(2) refl trans stop step have "R (start_state P d0) (state_of (Rejected e s1))"
    by (rule shardLoop_preorder [where R = R])
  with scan(3) show ?thesis by simp
next
  case (finish shape s1)
  from finish(2) refl trans stop step have "R (start_state P d0) (state_of (Resolved s1))"
    by (rule shardLoop_preorder [where R = R])
  then have "R (start_state P d0) s1" by simp
  with fin [of s1] finish(3) show ?thesis by (auto intro: trans)
qed

text \<open>
  With a positive \<open>chunkSize\<close> every run returns: each chunk moves \<open>i\<close> towards the
  end of its shard.
\<close>

lemma chunkLoop_returns:
  assumes chunk: "0 < chunkSize E" and cb: "0 < length (codebk P)"
  shows "\<exists>r. chunkLoop E P shape ec sh i s = Some r"
proof (induction "length_u8 (data sh) - i * length (codebk P)" arbitrary: i s rule: less_induct)
  case less
  show ?case
  proof (cases "i * length (codebk P) < length_u8 (data sh)")
    case False
    then have "chunkLoop E P shape ec sh i s = Some (Resolved s)"
      by (subst chunkLoop.simps) simp
    then show ?thesis by blast
  next
    case inside: True
    show ?thesis
    proof (cases "continueFn P (polls s)")
      case False
      with inside have "chunkLoop E P shape ec sh i s = Some (Resolved (snd (poll P s)))"
        by (subst chunkLoop.simps) (simp add: poll_def)
      then show ?thesis by blast
    next
      case go: True
      show ?thesis
      proof (cases "scan_chunk E P shape ec sh i (snd (poll P s))")
        case (Rejected e s2)
        with inside go have "chunkLoop E P shape ec sh i s = Some (Rejected e s2)"
          by (subst chunkLoop.simps) (simp add: poll_def)
        then show ?thesis by blast
      next
        case (Resolved s2)
        from chunk cb have "0 < chunkSize E * length (codebk P)" by simp
        moreover have "(i + chunkSize E) * length (codebk P) =
            i * length (codebk P) + chunkSize E * length (codebk P)"
          by (rule add_mult_distrib)
        ultimately have "length_u8 (data sh) - (i + chunkSize E) * length (codebk P)
            < length_u8 (data sh) - i * length (codebk P)"
          using inside by linarith
        then obtain r where "chunkLoop E P shape ec sh (i + chunkSize E) s2 = Some r"
          using less by blast
        with inside go Resolved have "chunkLoop E P shape ec sh i s = Some r"
          by (subst chunkLoop.simps) (simp add: poll_def)
        then show ?thesis by blast
      qed
    qed
  qed
qed

lemma shardLoop_returns:
  assumes chunk: "0 < chunkSize E" and cb: "0 < length (codebk P)"
  shows "\<exists>r. shardLoop E P shape ec shards s = Some r"
proof (induction shards arbitrary: ec s)
  case Nil
  show ?case by simp
next
  case (Cons sh rest)
  from chunkLoop_returns [OF chunk cb] obtain r1 where
    r1: "chunkLoop E P shape ec sh 0 s = Some r1" by blast
  show ?case
  proof (cases r1)
    case (Rejected e s1)
    with r1 show ?thesis by simp
  next
    case (Resolved s1)
    with r1 Cons.IH [of "Suc ec" s1] show ?thesis by simp
  qed
qed

lemma queryToTiledDist_returns:
  assumes "0 < chunkSize E"
  shows "\<exists>r. queryToTiledDist E P embeddings d0 ec0 = Some r"
proof (cases "codebookshape_of (codebk P)")
  case (Inl e)
  then show ?thesis by (simp add: queryToTiledDist_def)
next
  case (Inr shape)
  then have "0 < length (codebk P)"
    by (auto simp: codebookshape_of_def split: list.splits)
  with assms obtain r1 where
    "shardLoop E P shape ec0 (drop ec0 embeddings) (start_state P d0) = Some r1"
    using shardLoop_returns by blast
  with Inr show ?thesis by (cases r1) (simp_all add: queryToTiledDist_def)
qed

section \<open>The events of a run\<close>

lemma chunk_event_scan: "list_all chunk_event evs \<Longrightarrow> list_all scan_event evs"
proof (induction evs)
  case Nil
  then show ?case by simp
next
  case (Cons e evs)
  then show ?case by (cases e) simp_all
qed

text \<open>Both loops only append to the trace, and only events of the scan.\<close>

lemma shardLoop_events:
  assumes "shardLoop E P shape ec shards s = Some r"
  shows "\<exists>evs. trace (state_of r) = trace s @ evs \<and> list_all scan_event evs"
  using assms
proof (rule shardLoop_preorder
    [where R = "\<lambda>a b. \<exists>evs. trace b = trace a @ evs \<and> list_all scan_event evs"], goal_cases)
  case (1 s)
  show ?case by simp
next
  case (2 a b c)
  then obtain evs1 evs2 where "trace b = trace a @ evs1" "list_all scan_event evs1"
    "trace c = trace b @ evs2" "list_all scan_event evs2" by blast
  then have "trace c = trace a @ (evs1 @ evs2) \<and> list_all scan_event (evs1 @ evs2)" by simp
  then show ?case by blast
next
  case (3 s)
  show ?case by simp
next
  case (4 ec sh i s)
  obtain evs where "trace (state_of (scan_chunk E P shape ec sh i (snd (poll P s)))) =
      trace (snd (poll P s)) @ evs" and "list_all chunk_event evs"
    using scan_chunk_events by blast
  then have "trace (state_of (scan_chunk E P shape ec sh i (snd (poll P s)))) =
      trace s @ (Polled (continueFn P (polls s)) # evs)
      \<and> list_all scan_event (Polled (continueFn P (polls s)) # evs)"
    by (simp add: chunk_event_scan)
  then show ?case by blast
qed

lemma scan_event_not_final: "list_all scan_event evs \<Longrightarrow> filter is_final evs = []"
proof (induction evs)
  case Nil
  then show ?case by simp
next
  case (Cons e evs)
  then show ?case by (cases e rule: chunk_event.cases) simp_all
qed

lemma scan_event_filters: "list_all scan_event evs \<Longrightarrow> list_all topk_filters_ok evs"
proof (induction evs)
  case Nil
  then show ?case by simp
next
  case (Cons e evs)
  then show ?case by (cases e rule: chunk_event.cases) simp_all
qed

lemma start_state_simps [simp]:
  "trace (start_state P d0) = []"
  "dists (start_state P d0) = d0"
  "lastPaint (start_state P d0) = now P 0"
  "timingStrings (start_state P d0) = []"
  "clock_reads (start_state P d0) = Suc 0"
  "polls (start_state P d0) = 0"
  by (simp_all add: start_state_def)

lemma finish_filters:
  "\<exists>evs. trace (state_of (finish P s)) = trace s @ evs \<and> list_all topk_filters_ok evs"
  by (cases rule: finish_cases [of P s]) simp_all

lemmas run_defs =
  queryToTiledDist_def codebookshape_of_def start_state_def poll_def scan_chunk_def
  Date_now_def embeddingTile_of_def new_Uint8Array_def call_queryDist_def queryDist_def
  deliver_tile_def write_tile_def write_at_def log_event_def intermediateValueFn_def
  repaint_def call_distTopK_def distTopK_def finish_def at_index_def Let_def

lemmas demo_defs = demo_params_def demo_shard_def demo_pq_def demo_topk_def env_def

lemma demo_one_chunk_run:
  "queryToTiledDist (env\<lparr>chunkSize := 1\<rparr>) (demo_params (\<lambda>n. 20 * int n) (\<lambda>n. True))
     [demo_shard 0 [5]] [None] 0 = Some (Resolved demo_one_chunk)"
  by (simp add: run_defs demo_defs chunkLoop.simps demo_one_chunk_def)

text \<open>
  Claim C10. In every run that returns, whatever its arguments, every call of
  \<open>distTopK\<close> (the recomputations inside the scan and the final one) is made with
  \<open>filterZero = 0\<close> and \<open>filterShim = 1024\<close>: the arguments of
  \<open>queryToTiledDist\<close> have no say in them.
\<close>

theorem topk_filters_fixed:
  assumes "queryToTiledDist E P embeddings d0 ec0 = Some r"
  shows "list_all topk_filters_ok (trace (state_of r))"
  using assms
proof (cases rule: queryToTiledDist_cases)
  case (shape e)
  then show ?thesis by simp
next
  case (scan shape e s1)
  from shardLoop_events [OF scan(2)] scan(3) show ?thesis
    by (auto dest: scan_event_filters)
next
  case (finish shape s1)
  from shardLoop_events [OF finish(2)] have "list_all topk_filters_ok (trace s1)"
    by (auto dest: scan_event_filters)
  with finish_filters [of P s1] finish(3) show ?thesis by auto
qed

theorem topk_filters_fixed_witness:
  "queryToTiledDist (env\<lparr>chunkSize := 1\<rparr>) (demo_params (\<lambda>n. 20 * int n) (\<lambda>n. True))
     [demo_shard 0 [5]] [None] 0 = Some (Resolved demo_one_chunk)
   \<and> list_all topk_filters_ok (trace demo_one_chunk)
   \<and> length (filter is_topk_call (trace demo_one_chunk)) = 2"
proof -
  note run = demo_one_chunk_run
  from topk_filters_fixed [OF run] have "list_all topk_filters_ok (trace demo_one_chunk)" by simp
  moreover have "length (filter is_topk_call (trace demo_one_chunk)) = 2"
    by (simp add: demo_one_chunk_def)
  ultimately show ?thesis using run by simp
qed

lemma codebookshape_of_Inr:
  "cb \<noteq> [] \<Longrightarrow> hd cb \<noteq> [] \<Longrightarrow>
     codebookshape_of cb = Inr [length cb, length (hd cb), length (hd (hd cb))]"
  by (cases cb; cases "hd cb") (simp_all add: codebookshape_of_def)

text \<open>
  Claim C3. When a run returns and its last call of \<open>continueFn\<close>, the check of line
  91, answered "continue", the run ends with one call of \<open>distTopK\<close> on the distance
  array as it is then and one call \<open>intermediateValueFn({dists, distTime, topk})\<close> with
  that array and the result of that call; no other final update is in the trace. Neither
  \<open>maxTick\<close> nor the clock is constrained.
\<close>

theorem final_update_once:
  assumes run: "queryToTiledDist E P embeddings d0 ec0 = Some (Resolved s')"
    and cont: "continueFn P (polls s' - 1)"
  shows "\<exists>topk evs.
           distTopK (filteredtopkinf P) (dists s') (firstLetters P) (firstLetterInt P)
             0 1024 (topk_k P) = Inr topk
           \<and> trace s' = evs @ [Polled True, TopKCall (dists s') 0 1024 (topk_k P),
                                Emitted (FinalUpdate (dists s') (timingStrings s') topk)]
           \<and> filter is_final evs = []
           \<and> length (filter is_final (trace s')) = 1"
  using run
proof (cases rule: queryToTiledDist_cases)
  case (shape e)
  then show ?thesis by simp
next
  case (scan shape e s1)
  then show ?thesis by simp
next
  case (finish shape s1)
  from shardLoop_events [OF finish(2)] have quiet: "filter is_final (trace s1) = []"
    by (auto dest: scan_event_not_final)
  show ?thesis
  proof (cases rule: finish_cases [of P s1])
    case cancelled
    with finish(3) have "polls s' - 1 = polls s1" by simp
    with cancelled(1) cont show ?thesis by simp
  next
    case (failed e)
    with finish(3) show ?thesis by simp
  next
    case (final topk)
    with finish(3) have s': "s' = intermediateValueFn (FinalUpdate (dists s1) (timingStrings s1) topk)
        (snd (call_distTopK P 0 1024 (snd (poll P s1))))" by simp
    have d: "dists s' = dists s1" and ts: "timingStrings s' = timingStrings s1"
      and tr: "trace s' = trace s1 @ [Polled True, TopKCall (dists s1) 0 1024 (topk_k P),
          Emitted (FinalUpdate (dists s1) (timingStrings s1) topk)]"
      using final(1) by (simp_all add: s')
    from tr quiet have "length (filter is_final (trace s')) = 1" by simp
    with final(2) d ts tr quiet show ?thesis by auto
  qed
qed

theorem final_update_once_witness:
  "queryToTiledDist (env\<lparr>chunkSize := 1\<rparr>) (demo_params (\<lambda>n. 20 * int n) (\<lambda>n. True))
     [demo_shard 0 [5]] [None] 0 = Some (Resolved demo_one_chunk)
   \<and> continueFn (demo_params (\<lambda>n. 20 * int n) (\<lambda>n. True)) (polls demo_one_chunk - 1)
   \<and> (\<exists>evs. trace demo_one_chunk =
          evs @ [Polled True, TopKCall [Some 5] 0 1024 1,
                 Emitted (FinalUpdate [Some 5] [DistMs 20, TopkMs 20] 1)]
        \<and> filter is_final evs = [])
   \<and> length (filter is_final (trace demo_one_chunk)) = 1"
proof -
  note run = demo_one_chunk_run
  have cont: "continueFn (demo_params (\<lambda>n. 20 * int n) (\<lambda>n. True)) (polls demo_one_chunk - 1)"
    by (simp add: demo_params_def)
  from final_update_once [OF run cont] run cont show ?thesis
    by (auto simp: demo_one_chunk_def)
qed

text \<open>
  Claim C9. With an empty shard list (and a codebook that has a first centroid, so that
  line 64 does not raise) the run calls \<open>continueFn\<close> once. If it answers "continue"
  and the top-k engine returns, the run makes no kernel call and no assignment to
  \<open>dists\<close>: it calls \<open>distTopK\<close> once, on the array as the caller passed it, and
  emits one final update with that array, no timings and the result.
\<close>

theorem empty_shard_list:
  assumes cb: "codebk P \<noteq> []" "hd (codebk P) \<noteq> []"
    and cont: "continueFn P 0"
    and topk: "distTopK (filteredtopkinf P) d0 (firstLetters P) (firstLetterInt P)
                 0 1024 (topk_k P) = Inr topk"
  shows "queryToTiledDist E P [] d0 ec0 =
           Some (Resolved \<lparr>dists = d0, lastPaint = now P 0, timingStrings = [],
                           clock_reads = 1, polls = 1,
                           trace = [Polled True, TopKCall d0 0 1024 (topk_k P),
                                    Emitted (FinalUpdate d0 [] topk)]\<rparr>)"
  using cont topk
  by (simp add: queryToTiledDist_def codebookshape_of_Inr [OF cb] finish_def poll_def
      call_distTopK_def start_state_def log_event_def intermediateValueFn_def)

theorem empty_shard_list_witness:
  "codebk (demo_params (\<lambda>n. 20 * int n) (\<lambda>n. True)) \<noteq> []
   \<and> hd (codebk (demo_params (\<lambda>n. 20 * int n) (\<lambda>n. True))) \<noteq> []
   \<and> continueFn (demo_params (\<lambda>n. 20 * int n) (\<lambda>n. True)) 0
   \<and> queryToTiledDist env (demo_params (\<lambda>n. 20 * int n) (\<lambda>n. True)) [] [None, None] 0 =
       Some (Resolved \<lparr>dists = [None, None], lastPaint = 0, timingStrings = [],
                       clock_reads = 1, polls = 1,
                       trace = [Polled True, TopKCall [None, None] 0 1024 1,
                                Emitted (FinalUpdate [None, None] [] 0)]\<rparr>)"
  using empty_shard_list [of "demo_params (\<lambda>n. 20 * int n) (\<lambda>n. True)" "[None, None]" 0 env 0]
  by (simp add: demo_params_def demo_topk_def distTopK_def)

section \<open>The first chunk and the recomputations of the scan\<close>

text \<open>The five ways a chunk can end.\<close>

lemma scan_chunk_outcomes [case_names range kernel quiet engine repainted]:
  obtains
    (range) e s' where "embeddingTile_of E P sh i = Inl e"
      and "scan_chunk E P shape ec sh i s = Rejected e s'" and "trace s' = trace s"
      and "lastPaint s' = lastPaint s"
  | (kernel) tile e s' where "embeddingTile_of E P sh i = Inr tile"
      and "call_queryDist E P shape tile = Inl e"
      and "scan_chunk E P shape ec sh i s = Rejected e s'"
      and "trace s' = trace s @ [KernelCall ec i tile]"
      and "lastPaint s' = lastPaint s"
  | (quiet) tile distTile where "embeddingTile_of E P sh i = Inr tile"
      and "call_queryDist E P shape tile = Inr distTile"
      and "\<not> repaint_due E P ec i s"
      and "scan_chunk E P shape ec sh i s = Resolved (delivered E P ec sh i tile distTile s)"
  | (engine) tile distTile e s' where "embeddingTile_of E P sh i = Inr tile"
      and "call_queryDist E P shape tile = Inr distTile"
      and "repaint_due E P ec i s"
      and "distTopK (filteredtopkinf P) (dists (delivered E P ec sh i tile distTile s))
             (firstLetters P) (firstLetterInt P) 0 1024 (topk_k P) = Inl e"
      and "scan_chunk E P shape ec sh i s = Rejected e s'"
      and "trace s' = trace (delivered E P ec sh i tile distTile s)
             @ [TopKCall (dists (delivered E P ec sh i tile distTile s)) 0 1024 (topk_k P)]"
      and "lastPaint s' = lastPaint s"
  | (repainted) tile distTile topk s' where "embeddingTile_of E P sh i = Inr tile"
      and "call_queryDist E P shape tile = Inr distTile"
      and "repaint_due E P ec i s"
      and "distTopK (filteredtopkinf P) (dists (delivered E P ec sh i tile distTile s))
             (firstLetters P) (firstLetterInt P) 0 1024 (topk_k P) = Inr topk"
      and "scan_chunk E P shape ec sh i s = Resolved s'"
      and "trace s' = trace (delivered E P ec sh i tile distTile s)
             @ [TopKCall (dists (delivered E P ec sh i tile distTile s)) 0 1024 (topk_k P),
                Emitted (TopKUpdate topk), Yielded]"
      and "dists s' = dists (delivered E P ec sh i tile distTile s)"
      and "lastPaint s' = now P (clock_reads s + 3)"
      and "clock_reads s' = clock_reads s + 4"
      and "polls s' = polls s"
proof (cases rule: scan_chunk_cases [of E P sh i shape ec s])
  case (range e)
  then show ?thesis by (intro that(1) [of e "snd (Date_now P s)"]) simp_all
next
  case (kernel tile e)
  then show ?thesis
    by (intro that(2) [of tile e "log_event (KernelCall ec i tile) (snd (Date_now P s))"]) simp_all
next
  case (delivered tile distTile)
  let ?d = "delivered E P ec sh i tile distTile s"
  show ?thesis
  proof (cases "repaint_due E P ec i s")
    case False
    with delivered show ?thesis by (intro that(3) [of tile distTile]) simp_all
  next
    case due: True
    let ?call = "distTopK (filteredtopkinf P) (dists ?d) (firstLetters P) (firstLetterInt P)
        0 1024 (topk_k P)"
    show ?thesis
    proof (cases ?call)
      case (Inl e)
      from repaint_Inl [OF Inl, of "now P (Suc (clock_reads s))"] delivered due Inl
      show ?thesis
        by (intro that(4) [of tile distTile e "log_event (TopKCall (dists ?d) 0 1024 (topk_k P)) ?d"])
          simp_all
    next
      case (Inr topk)
      from repaint_Inr [OF Inr, of "now P (Suc (clock_reads s))"] obtain s'
        where "repaint P (now P (Suc (clock_reads s))) ?d = Resolved s'"
          and "trace s' = trace ?d @ [TopKCall (dists ?d) 0 1024 (topk_k P),
              Emitted (TopKUpdate topk), Yielded]"
          and "dists s' = dists ?d"
          and "lastPaint s' = now P (Suc (clock_reads ?d))"
          and "clock_reads s' = Suc (Suc (clock_reads ?d))"
          and "polls s' = polls ?d"
        by blast
      with delivered due Inr show ?thesis
        by (intro that(5) [of tile distTile topk s']) (simp_all add: numeral_3_eq_3)
    qed
  qed
qed

lemma repaints_from_append:
  "repaints_from c (xs @ ys) = repaints_from c xs @ repaints_from (foldl advance c xs) ys"
  by (induction xs arbitrary: c) simp_all

lemma repaints_from_writes [simp]:
  "repaints_from c (map (\<lambda>j. Wrote ec i (f j) (g j)) js @ evs) = repaints_from c evs"
proof (induction js)
  case Nil
  show ?case by simp
next
  case (Cons j js)
  then show ?case by (cases c) simp
qed

lemma repaints_append:
  "repaints (tr @ evs) = repaints tr @ repaints_from (foldl advance (0, 0, 0, 0) tr) evs"
  by (simp add: repaints_def repaints_from_append)

text \<open>
  What one chunk adds to the recomputations of a trace: nothing, or the chunk itself
  with its \<open>distTime\<close> and the \<open>lastPaint\<close> it was entered with.
\<close>

lemma scan_chunk_repaints [case_names none one]:
  obtains
    (none) evs where "trace (state_of (scan_chunk E P shape ec sh i s)) = trace s @ evs"
      and "\<And>c. repaints_from c evs = []"
      and "lastPaint (state_of (scan_chunk E P shape ec sh i s)) = lastPaint s"
  | (one) evs where "trace (state_of (scan_chunk E P shape ec sh i s)) = trace s @ evs"
      and "\<And>c. repaints_from c evs = [(ec, i, now P (Suc (clock_reads s)), lastPaint s)]"
      and "repaint_due E P ec i s"
      and "lastPaint (state_of (scan_chunk E P shape ec sh i s)) = now P (clock_reads s + 3)"
proof (cases rule: scan_chunk_outcomes [of E P sh i shape ec s])
  case (range e s')
  then show ?thesis by (intro none [of "[]"]) simp_all
next
  case (kernel tile e s')
  show ?thesis
  proof (rule none [of "[KernelCall ec i tile]"])
    fix c :: cursor
    show "repaints_from c [KernelCall ec i tile :: ('a, 'b) event] = []" by (cases c) simp
  qed (use kernel in simp_all)
next
  case (quiet tile distTile)
  show ?thesis
  proof (rule none)
    show "trace (state_of (scan_chunk E P shape ec sh i s)) =
        trace s @ drop (length (trace s)) (trace (delivered E P ec sh i tile distTile s))"
      using quiet by simp
    fix c :: cursor
    show "repaints_from c (drop (length (trace s)) (trace (delivered E P ec sh i tile distTile s))) = []"
      by (cases c) simp
  qed (use quiet in simp)
next
  case (engine tile distTile e s')
  show ?thesis
  proof (rule none)
    show "trace (state_of (scan_chunk E P shape ec sh i s)) = trace s @ drop (length (trace s)) (trace s')"
      using engine by simp
    fix c :: cursor
    show "repaints_from c (drop (length (trace s)) (trace s')) = []"
      using engine(6) by (cases c) simp
  qed (use engine in simp)
next
  case (repainted tile distTile topk s')
  show ?thesis
  proof (rule one)
    show "trace (state_of (scan_chunk E P shape ec sh i s)) = trace s @ drop (length (trace s)) (trace s')"
      using repainted by simp
    fix c :: cursor
    show "repaints_from c (drop (length (trace s)) (trace s')) =
        [(ec, i, now P (Suc (clock_reads s)), lastPaint s)]"
      using repainted(6) by (cases c) simp
  qed (use repainted in simp_all)
qed


lemma finish_grows: "\<exists>evs. trace (state_of (finish P s)) = trace s @ evs"
  using finish_filters [of P s] by blast



lemma repaints_from_finish:
  "trace (state_of (finish P s)) = trace s @ evs \<Longrightarrow> repaints_from c evs = []"
  by (cases rule: finish_cases [of P s]; cases c) auto






section \<open>Rejections and the use of k\<close>

lemma demo_k_zero_run:
  "queryToTiledDist (env\<lparr>chunkSize := 1\<rparr>)
     ((demo_params (\<lambda>n. 20 * int n) (\<lambda>n. True))\<lparr>topk_k := 0\<rparr>)
     [demo_shard 0 [5]] [None] 0 = Some (Resolved demo_k_zero)"
  by (simp add: run_defs demo_defs chunkLoop.simps demo_k_zero_def)

lemma demo_rejected_run:
  "queryToTiledDist (env\<lparr>chunkSize := 1\<rparr>)
     ((demo_params (\<lambda>n. 20 * int n) (\<lambda>n. True))\<lparr>topk_k := 0, filteredtopkinf := demo_strict_topk\<rparr>)
     [demo_shard 0 [5]] [None] 0 = Some (Rejected InvalidKError demo_rejected)"
  by (simp add: run_defs demo_defs chunkLoop.simps demo_rejected_def demo_strict_topk_def)

lemma embeddingTile_of_error: "embeddingTile_of E P sh i = Inl e \<Longrightarrow> e = RangeError"
  by (simp add: embeddingTile_of_def new_Uint8Array_def Let_def split: if_splits)

text \<open>Passing another \<open>k\<close> that the engine answers alike changes nothing but the recorded \<open>k\<close>.\<close>

lemma state_with_k_simps [simp]:
  "trace (state_with_k k' s) = map (with_k k') (trace s)"
  "dists (state_with_k k' s) = dists s"
  "lastPaint (state_with_k k' s) = lastPaint s"
  "timingStrings (state_with_k k' s) = timingStrings s"
  "clock_reads (state_with_k k' s) = clock_reads s"
  "polls (state_with_k k' s) = polls s"
  by (simp_all add: state_with_k_def)

lemma with_k_log_event:
  "log_event (with_k k' e) (state_with_k k' s) = state_with_k k' (log_event e s)"
  by (simp add: log_event_def state_with_k_def)

lemma poll_with_k:
  "poll (P\<lparr>topk_k := k'\<rparr>) (state_with_k k' s) =
     (continueFn P (polls s), state_with_k k' (snd (poll P s)))"
  by (simp add: poll_def log_event_def state_with_k_def)

lemma map_with_k_writes [simp]:
  "map (with_k k') (map (\<lambda>j. Wrote ec i (f j) (g j)) js) = map (\<lambda>j. Wrote ec i (f j) (g j)) js"
  by (induction js) simp_all

lemma delivered_with_k:
  "delivered E (P\<lparr>topk_k := k'\<rparr>) ec sh i tile distTile (state_with_k k' s) =
     state_with_k k' (delivered E P ec sh i tile distTile s)"
  by (rule state.equality) simp_all

lemma repaint_with_k:
  assumes "same_answers P k'"
  shows "repaint (P\<lparr>topk_k := k'\<rparr>) t (state_with_k k' s) = outcome_with_k k' (repaint P t s)"
proof -
  from assms have eq: "distTopK (filteredtopkinf P) (dists s) (firstLetters P) (firstLetterInt P) 0 1024 k'
      = distTopK (filteredtopkinf P) (dists s) (firstLetters P) (firstLetterInt P) 0 1024 (topk_k P)"
    by (simp add: same_answers_def)
  show ?thesis
    by (cases "distTopK (filteredtopkinf P) (dists s) (firstLetters P) (firstLetterInt P)
          0 1024 (topk_k P)")
      (simp_all add: repaint_def call_distTopK_def eq Date_now_def Let_def
        intermediateValueFn_def log_event_def state_with_k_def)
qed

lemma scan_chunk_with_k:
  assumes "same_answers P k'"
  shows "scan_chunk E (P\<lparr>topk_k := k'\<rparr>) shape ec sh i (state_with_k k' s) =
           outcome_with_k k' (scan_chunk E P shape ec sh i s)"
proof -
  let ?P' = "P\<lparr>topk_k := k'\<rparr>" and ?s' = "state_with_k k' s"
  have tile: "embeddingTile_of E ?P' sh i = embeddingTile_of E P sh i"
    by (simp add: embeddingTile_of_def)
  have call: "call_queryDist E ?P' shape tl = call_queryDist E P shape tl" for tl
    by (simp add: call_queryDist_def)
  have due: "repaint_due E ?P' ec i ?s' = repaint_due E P ec i s"
    by (simp add: repaint_due_def)
  have now: "snd (Date_now ?P' ?s') = state_with_k k' (snd (Date_now P s))"
    by (simp add: Date_now_def state_with_k_def)
  show ?thesis
  proof (cases rule: scan_chunk_cases [of E P sh i shape ec s])
    case (range e)
    from range(1) tile have "embeddingTile_of E ?P' sh i = Inl e" by simp
    then have "scan_chunk E ?P' shape ec sh i ?s' = Rejected e (snd (Date_now ?P' ?s'))"
      by (cases rule: scan_chunk_cases [of E ?P' sh i shape ec ?s']) simp_all
    with range(2) now show ?thesis by simp
  next
    case (kernel tl e)
    from kernel(1) tile have t': "embeddingTile_of E ?P' sh i = Inr tl" by simp
    from kernel(2) call have c': "call_queryDist E ?P' shape tl = Inl e" by simp
    have "scan_chunk E ?P' shape ec sh i ?s' =
        Rejected e (log_event (KernelCall ec i tl) (snd (Date_now ?P' ?s')))"
      using t' c' by (cases rule: scan_chunk_cases [of E ?P' sh i shape ec ?s']) simp_all
    with kernel(3) now show ?thesis
      using with_k_log_event [of k' "KernelCall ec i tl" "snd (Date_now P s)"] by simp
  next
    case (delivered tl distTile)
    from delivered(1) tile have t': "embeddingTile_of E ?P' sh i = Inr tl" by simp
    from delivered(2) call have c': "call_queryDist E ?P' shape tl = Inr distTile" by simp
    have "scan_chunk E ?P' shape ec sh i ?s' =
        (if repaint_due E ?P' ec i ?s'
         then repaint ?P' (now ?P' (Suc (clock_reads ?s'))) (delivered E ?P' ec sh i tl distTile ?s')
         else Resolved (delivered E ?P' ec sh i tl distTile ?s'))"
      using t' c' by (cases rule: scan_chunk_cases [of E ?P' sh i shape ec ?s']) simp_all
    with delivered(3) show ?thesis
      by (simp add: due delivered_with_k repaint_with_k [OF assms])
  qed
qed

lemma finish_with_k:
  assumes "same_answers P k'"
  shows "finish (P\<lparr>topk_k := k'\<rparr>) (state_with_k k' s) = outcome_with_k k' (finish P s)"
proof -
  from assms have eq: "distTopK (filteredtopkinf P) (dists s) (firstLetters P) (firstLetterInt P) 0 1024 k'
      = distTopK (filteredtopkinf P) (dists s) (firstLetters P) (firstLetterInt P) 0 1024 (topk_k P)"
    by (simp add: same_answers_def)
  show ?thesis
    by (cases "distTopK (filteredtopkinf P) (dists s) (firstLetters P) (firstLetterInt P)
          0 1024 (topk_k P)")
      (simp_all add: finish_def poll_def call_distTopK_def eq Let_def
        intermediateValueFn_def log_event_def state_with_k_def)
qed

lemma chunkLoop_with_k:
  assumes run: "chunkLoop E P shape ec sh i s = Some r"
    and same: "same_answers P k'"
  shows "chunkLoop E (P\<lparr>topk_k := k'\<rparr>) shape ec sh i (state_with_k k' s) =
           Some (outcome_with_k k' r)"
  using run
proof (induction rule: chunkLoop_rule)
  case (exit i s)
  then show ?case by (subst chunkLoop.simps) simp
next
  case (stop i s)
  then show ?case by (subst chunkLoop.simps) (simp add: poll_with_k)
next
  case (fail i s e s2)
  then show ?case
    by (subst chunkLoop.simps) (simp add: poll_with_k scan_chunk_with_k [OF same])
next
  case (step i s s2 r)
  then show ?case
    by (subst chunkLoop.simps) (simp add: poll_with_k scan_chunk_with_k [OF same])
qed

lemma shardLoop_with_k:
  assumes run: "shardLoop E P shape ec shards s = Some r"
    and same: "same_answers P k'"
  shows "shardLoop E (P\<lparr>topk_k := k'\<rparr>) shape ec shards (state_with_k k' s) =
           Some (outcome_with_k k' r)"
  using run
proof (induction shards arbitrary: ec s)
  case Nil
  then show ?case by auto
next
  case (Cons sh rest)
  from Cons.prems obtain r1 where r1: "chunkLoop E P shape ec sh 0 s = Some r1"
    by (auto split: option.splits)
  note r1' = chunkLoop_with_k [OF r1 same]
  show ?case
  proof (cases r1)
    case (Rejected e s1)
    with Cons.prems r1 have "r = Rejected e s1" by simp
    with Rejected r1' show ?thesis by simp
  next
    case (Resolved s1)
    with Cons.prems r1 have "shardLoop E P shape (Suc ec) rest s1 = Some r" by simp
    from Cons.IH [OF this] Resolved r1' show ?thesis by simp
  qed
qed

lemma start_state_with_k:
  "start_state (P\<lparr>topk_k := k'\<rparr>) d0 = state_with_k k' (start_state P d0)"
  by (simp add: start_state_def state_with_k_def)

lemma run_with_k:
  assumes run: "queryToTiledDist E P embeddings d0 ec0 = Some r"
    and same: "same_answers P k'"
  shows "queryToTiledDist E (P\<lparr>topk_k := k'\<rparr>) embeddings d0 ec0 = Some (outcome_with_k k' r)"
  using run
proof (cases rule: queryToTiledDist_cases)
  case (shape e)
  then show ?thesis by (simp add: queryToTiledDist_def start_state_with_k)
next
  case (scan shape e s1)
  from shardLoop_with_k [OF scan(2) same] scan(1,3) show ?thesis
    by (simp add: queryToTiledDist_def start_state_with_k)
next
  case (finish shape s1)
  from shardLoop_with_k [OF finish(2) same] finish(1,3) show ?thesis
    by (simp add: queryToTiledDist_def start_state_with_k finish_with_k [OF same])
qed

lemma call_rejected_mono:
  assumes "call_rejected E P shape A e s" and "set A \<subseteq> set B"
  shows "call_rejected E P shape B e s"
  using assms unfolding call_rejected_def by (auto split: event.splits)

lemma scan_chunk_rejected:
  assumes rej: "scan_chunk E P shape ec sh i (snd (poll P s)) = Rejected e s'"
    and go: "continueFn P (polls s)"
    and inside: "i * length (codebk P) < length_u8 (data sh)"
    and cb: "0 < length (codebk P)"
  shows "call_rejected E P shape [sh] e s'"
proof (cases rule: scan_chunk_cases [of E P sh i shape ec "snd (poll P s)"])
  case (range e1)
  with rej have e1: "e1 = e" and s': "s' = snd (Date_now P (snd (poll P s)))" by simp_all
  from range(1) e1 have r: "embeddingTile_of E P sh i = Inl RangeError" and e: "e = RangeError"
    using embeddingTile_of_error by auto
  from cb have "1 \<le> length (codebk P)" by linarith
  then have "i * 1 \<le> i * length (codebk P)" by (rule mult_le_mono2)
  with inside have "i < length_u8 (data sh)" by linarith
  with r e go show ?thesis unfolding s' by (auto simp: call_rejected_def)
next
  case (kernel tile e1)
  with rej have "e1 = e"
    and "s' = log_event (KernelCall ec i tile) (snd (Date_now P (snd (poll P s))))" by simp_all
  with kernel(1,2) show ?thesis by (simp add: call_rejected_def)
next
  case (delivered tile distTile)
  let ?d = "delivered E P ec sh i tile distTile (snd (poll P s))"
  let ?t = "now P (Suc (clock_reads (snd (poll P s))))"
  from delivered(3) rej have rp: "repaint P ?t ?d = Rejected e s'"
    by (simp split: if_splits)
  show ?thesis
  proof (cases "distTopK (filteredtopkinf P) (dists ?d) (firstLetters P) (firstLetterInt P)
      0 1024 (topk_k P)")
    case (Inl e1)
    from repaint_Inl [OF Inl, of ?t] rp have "e1 = e"
      and "s' = log_event (TopKCall (dists ?d) 0 1024 (topk_k P)) ?d" by simp_all
    with Inl show ?thesis by (simp add: call_rejected_def)
  next
    case (Inr topk)
    from repaint_Inr [OF Inr, of ?t] rp show ?thesis by auto
  qed
qed

lemma chunkLoop_rejected:
  assumes "chunkLoop E P shape ec sh i s = Some r" and cb: "0 < length (codebk P)"
  shows "\<forall>e s'. r = Rejected e s' \<longrightarrow> call_rejected E P shape [sh] e s'"
  using assms(1)
proof (induction rule: chunkLoop_rule)
  case (exit i s)
  show ?case by simp
next
  case (stop i s)
  show ?case by simp
next
  case (fail i s e s2)
  from scan_chunk_rejected [OF fail(3) fail(2) fail(1) cb] show ?case by simp
next
  case (step i s s2 r)
  then show ?case by simp
qed

lemma shardLoop_rejected:
  assumes "shardLoop E P shape ec shards s = Some r" and cb: "0 < length (codebk P)"
  shows "\<forall>e s'. r = Rejected e s' \<longrightarrow> call_rejected E P shape shards e s'"
  using assms(1)
proof (induction shards arbitrary: ec s)
  case Nil
  then have "r = Resolved s" by simp
  then show ?case by simp
next
  case (Cons sh rest)
  from Cons.prems obtain r1 where r1: "chunkLoop E P shape ec sh 0 s = Some r1"
    by (auto split: option.splits)
  show ?case
  proof (cases r1)
    case (Rejected e s1)
    with Cons.prems r1 have r: "r = Rejected e s1" by simp
    from chunkLoop_rejected [OF r1 cb] Rejected
    have "call_rejected E P shape [sh] e s1" by simp
    then have "call_rejected E P shape (sh # rest) e s1"
      by (rule call_rejected_mono) simp
    with r show ?thesis by simp
  next
    case (Resolved s1)
    with Cons.prems r1 have "shardLoop E P shape (Suc ec) rest s1 = Some r" by simp
    then have "\<forall>e s'. r = Rejected e s' \<longrightarrow> call_rejected E P shape rest e s'"
      by (rule Cons.IH)
    then show ?thesis by (auto intro: call_rejected_mono)
  qed
qed

lemma run_rejected:
  assumes "queryToTiledDist E P embeddings d0 ec0 = Some (Rejected e s')"
  shows "rejection_source E P embeddings e s'"
  using assms
proof (cases rule: queryToTiledDist_cases)
  case (shape e1)
  then have "e1 = TypeError"
    by (auto simp: codebookshape_of_def split: list.splits)
  with shape show ?thesis by (simp add: rejection_source_def)
next
  case (scan shape e1 s1)
  from scan(1) have cb: "0 < length (codebk P)"
    by (auto simp: codebookshape_of_def split: list.splits)
  from shardLoop_rejected [OF scan(2) cb]
  have "call_rejected E P shape (drop ec0 embeddings) e1 s1" by simp
  then have "call_rejected E P shape embeddings e1 s1"
    by (rule call_rejected_mono) (rule set_drop_subset)
  with scan(1,3) show ?thesis by (simp add: rejection_source_def)
next
  case (finish shape s1)
  show ?thesis
  proof (cases rule: finish_cases [of P s1])
    case cancelled
    with finish(3) show ?thesis by simp
  next
    case (failed e1)
    with finish(3) have "e1 = e" and "s' = snd (call_distTopK P 0 1024 (snd (poll P s1)))"
      by simp_all
    with failed(2) finish(1) show ?thesis
      by (simp add: rejection_source_def call_rejected_def)
  next
    case (final topk)
    with finish(3) show ?thesis by simp
  qed
qed

lemma takeWhile_no_topk:
  "\<not> list_ex is_topk_call xs \<Longrightarrow> takeWhile (\<lambda>e. \<not> is_topk_call e) (xs @ ys)
     = xs @ takeWhile (\<lambda>e. \<not> is_topk_call e) ys"
  by (induction xs) simp_all

lemma takeWhile_topk:
  "list_ex is_topk_call xs \<Longrightarrow> takeWhile (\<lambda>e. \<not> is_topk_call e) (xs @ ys)
     = takeWhile (\<lambda>e. \<not> is_topk_call e) xs"
  by (induction xs) auto

lemma guarded_append: "guarded xs \<Longrightarrow> guarded ys \<Longrightarrow> guarded (xs @ ys)"
  by (cases "list_ex is_topk_call xs")
    (auto simp: guarded_def takeWhile_topk takeWhile_no_topk)

lemma takeWhile_writes [simp]:
  "takeWhile (\<lambda>e. \<not> is_topk_call e) (map (\<lambda>j. Wrote ec i (f j) (g j)) js @ evs) =
     map (\<lambda>j. Wrote ec i (f j) (g j)) js @ takeWhile (\<lambda>e. \<not> is_topk_call e) evs"
  by (induction js) simp_all

lemma scan_chunk_guarded:
  "\<exists>evs. trace (state_of (scan_chunk E P shape ec sh i s)) = trace s @ evs \<and> guarded evs"
proof (cases rule: scan_chunk_outcomes [of E P sh i shape ec s])
  case (range e s')
  then show ?thesis by (simp add: guarded_def)
next
  case (kernel tile e s')
  then show ?thesis by (simp add: guarded_def)
next
  case (quiet tile distTile)
  then show ?thesis by (simp add: guarded_def)
next
  case (engine tile distTile e s')
  then show ?thesis by (simp add: guarded_def)
next
  case (repainted tile distTile topk s')
  then show ?thesis by (simp add: guarded_def)
qed

lemma shardLoop_guarded:
  assumes "shardLoop E P shape ec shards s = Some r"
  shows "\<exists>evs. trace (state_of r) = trace s @ evs \<and> guarded evs"
  using assms
proof (rule shardLoop_preorder
    [where R = "\<lambda>a b. \<exists>evs. trace b = trace a @ evs \<and> guarded evs"], goal_cases)
  case (1 s)
  show ?case by (simp add: guarded_def)
next
  case (2 a b c)
  then obtain evs1 evs2 where "trace b = trace a @ evs1" "guarded evs1"
    "trace c = trace b @ evs2" "guarded evs2" by blast
  then have "trace c = trace a @ (evs1 @ evs2) \<and> guarded (evs1 @ evs2)"
    by (simp add: guarded_append)
  then show ?case by blast
next
  case (3 s)
  show ?case by (simp add: guarded_def)
next
  case (4 ec sh i s)
  obtain evs where "trace (state_of (scan_chunk E P shape ec sh i (snd (poll P s)))) =
      trace (snd (poll P s)) @ evs" and "guarded evs"
    using scan_chunk_guarded by blast
  then have "trace (state_of (scan_chunk E P shape ec sh i (snd (poll P s)))) =
      trace s @ (Polled (continueFn P (polls s)) # evs)
      \<and> guarded (Polled (continueFn P (polls s)) # evs)"
    by (simp add: guarded_def)
  then show ?case by blast
qed

lemma finish_no_kernel_call:
  "trace (state_of (finish P s)) = trace s @ evs \<Longrightarrow> \<not> list_ex is_kernel_call evs"
  by (cases rule: finish_cases [of P s]) auto

lemma guarded_used_late: "guarded tr \<Longrightarrow> k_used_late tr"
proof (cases "list_ex is_topk_call tr")
  case True
  assume "guarded tr"
  with True show ?thesis by (simp add: guarded_def k_used_late_def)
next
  case False
  then have "dropWhile (\<lambda>e. \<not> is_topk_call e) tr = []"
    by (simp add: list_ex_iff)
  then show ?thesis by (simp add: k_used_late_def)
qed

lemma scan_chunk_opens:
  "\<exists>evs. trace (state_of (scan_chunk E P shape ec sh i s)) = trace s @ evs
     \<and> (list_ex is_kernel_call evs \<or> evs = [])"
proof (cases rule: scan_chunk_outcomes [of E P sh i shape ec s])
  case (range e s')
  then show ?thesis by simp
next
  case (kernel tile e s')
  then show ?thesis by simp
next
  case (quiet tile distTile)
  then show ?thesis by simp
next
  case (engine tile distTile e s')
  then show ?thesis by simp
next
  case (repainted tile distTile topk s')
  then show ?thesis by simp
qed

lemma shardLoop_polls_or_kernel:
  assumes "shardLoop E P shape ec shards s = Some r"
  shows "\<exists>evs. trace (state_of r) = trace s @ evs
           \<and> (list_ex is_kernel_call evs \<or> list_all is_polled evs)"
  using assms
proof (rule shardLoop_preorder
    [where R = "\<lambda>a b. \<exists>evs. trace b = trace a @ evs
                  \<and> (list_ex is_kernel_call evs \<or> list_all is_polled evs)"], goal_cases)
  case (1 s)
  show ?case by simp
next
  case (2 a b c)
  then obtain evs1 evs2 where "trace b = trace a @ evs1"
    "list_ex is_kernel_call evs1 \<or> list_all is_polled evs1"
    "trace c = trace b @ evs2" "list_ex is_kernel_call evs2 \<or> list_all is_polled evs2" by blast
  then have "trace c = trace a @ (evs1 @ evs2)
      \<and> (list_ex is_kernel_call (evs1 @ evs2) \<or> list_all is_polled (evs1 @ evs2))"
    by auto
  then show ?case by blast
next
  case (3 s)
  show ?case by simp
next
  case (4 ec sh i s)
  obtain evs where "trace (state_of (scan_chunk E P shape ec sh i (snd (poll P s)))) =
      trace (snd (poll P s)) @ evs" and "list_ex is_kernel_call evs \<or> evs = []"
    using scan_chunk_opens by blast
  then have "trace (state_of (scan_chunk E P shape ec sh i (snd (poll P s)))) =
      trace s @ (Polled (continueFn P (polls s)) # evs)
      \<and> (list_ex is_kernel_call (Polled (continueFn P (polls s)) # evs)
          \<or> list_all is_polled (Polled (continueFn P (polls s)) # evs))"
    by auto
  then show ?case by blast
qed

lemma final_call_used_late:
  assumes g: "guarded tr" and pk: "list_ex is_kernel_call tr \<or> list_all is_polled tr"
    and fin: "fin = [TopKCall d fz fs kk] \<or> (\<exists>u. fin = [TopKCall d fz fs kk, Emitted u] \<and> is_final (Emitted u))"
  shows "k_used_late (tr @ Polled True # fin)"
proof (cases "list_ex is_topk_call tr")
  case True
  with g show ?thesis by (simp add: guarded_def k_used_late_def takeWhile_topk)
next
  case False
  then have no: "\<forall>e\<in>set tr. \<not> is_topk_call e" by (simp add: list_ex_iff)
  have before: "takeWhile (\<lambda>e. \<not> is_topk_call e) (tr @ Polled True # fin) = tr @ [Polled True]"
    using no fin by (auto simp: takeWhile_append2)
  have rest: "dropWhile (\<lambda>e. \<not> is_topk_call e) (tr @ Polled True # fin) = fin"
    using no fin by (auto simp: dropWhile_append2)
  from pk fin show ?thesis unfolding k_used_late_def Let_def before rest by auto
qed

lemma run_k_used_late:
  assumes "queryToTiledDist E P embeddings d0 ec0 = Some r"
  shows "k_used_late (trace (state_of r))"
  using assms
proof (cases rule: queryToTiledDist_cases)
  case (shape e)
  then show ?thesis by (simp add: k_used_late_def)
next
  case (scan shape e s1)
  from shardLoop_guarded [OF scan(2)] have "guarded (trace s1)" by simp
  with scan(3) show ?thesis by (simp add: guarded_used_late)
next
  case (finish shape s1)
  from shardLoop_guarded [OF finish(2)] have g: "guarded (trace s1)" by simp
  from shardLoop_polls_or_kernel [OF finish(2)]
  have pk: "list_ex is_kernel_call (trace s1) \<or> list_all is_polled (trace s1)" by simp
  show ?thesis
  proof (cases rule: finish_cases [of P s1])
    case cancelled
    have "guarded (trace s1 @ [Polled False])"
      using g by (rule guarded_append) (simp add: guarded_def)
    with cancelled finish(3) show ?thesis by (simp add: guarded_used_late)
  next
    case (failed e)
    with finish(3) have "trace (state_of r) =
        trace s1 @ Polled True # [TopKCall (dists s1) 0 1024 (topk_k P)]" by simp
    moreover have "k_used_late (trace s1 @ Polled True # [TopKCall (dists s1) 0 1024 (topk_k P)])"
      using g pk by (rule final_call_used_late) simp
    ultimately show ?thesis by simp
  next
    case (final topk)
    with finish(3) have "trace (state_of r) =
        trace s1 @ Polled True # [TopKCall (dists s1) 0 1024 (topk_k P),
          Emitted (FinalUpdate (dists s1) (timingStrings s1) topk)]" by simp
    moreover have "k_used_late (trace s1 @ Polled True # [TopKCall (dists s1) 0 1024 (topk_k P),
          Emitted (FinalUpdate (dists s1) (timingStrings s1) topk)])"
      using g pk by (rule final_call_used_late) simp
    ultimately show ?thesis by simp
  qed
qed

text \<open>
  Claim C8, as the code has it. \<open>queryToTiledDist\<close> never inspects \<open>k\<close>: it only
  hands it to \<open>distTopK\<close>. For every run that returns:
  had another \<open>k'\<close> been passed that the engine answers as it answers \<open>k\<close>, the run
  would have been the same, event for event;
  if the run is rejected, it is with the \<open>TypeError\<close> of line 64 before anything
  happens, or with the \<open>RangeError\<close> of line 73 or the error of the rejected call of
  \<open>queryDist\<close> or \<open>distTopK\<close> that is the last event of the run;
  and the first call of \<open>distTopK\<close>, the first use of \<open>k\<close>, comes after a call of
  \<open>queryDist\<close>, or is the final recomputation of a scan that processed no chunk.
\<close>

theorem k_not_validated:
  assumes "queryToTiledDist E P embeddings d0 ec0 = Some r"
  shows "(\<forall>k'. same_answers P k'
            \<longrightarrow> queryToTiledDist E (P\<lparr>topk_k := k'\<rparr>) embeddings d0 ec0 = Some (outcome_with_k k' r))
         \<and> (\<forall>e s'. r = Rejected e s' \<longrightarrow> rejection_source E P embeddings e s')
         \<and> k_used_late (trace (state_of r))"
proof (intro conjI allI impI)
  fix k' assume "same_answers P k'"
  with assms show "queryToTiledDist E (P\<lparr>topk_k := k'\<rparr>) embeddings d0 ec0 = Some (outcome_with_k k' r)"
    by (rule run_with_k)
next
  fix e s' assume "r = Rejected e s'"
  with assms show "rejection_source E P embeddings e s'" by (simp add: run_rejected)
next
  from assms show "k_used_late (trace (state_of r))" by (rule run_k_used_late)
qed

theorem k_not_validated_witness:
  "queryToTiledDist (env\<lparr>chunkSize := 1\<rparr>)
     ((demo_params (\<lambda>n. 20 * int n) (\<lambda>n. True))\<lparr>topk_k := 0, filteredtopkinf := demo_strict_topk\<rparr>)
     [demo_shard 0 [5]] [None] 0 = Some (Rejected InvalidKError demo_rejected)
   \<and> same_answers
        ((demo_params (\<lambda>n. 20 * int n) (\<lambda>n. True))\<lparr>topk_k := 0, filteredtopkinf := demo_strict_topk\<rparr>)
        256
   \<and> queryToTiledDist (env\<lparr>chunkSize := 1\<rparr>)
        ((demo_params (\<lambda>n. 20 * int n) (\<lambda>n. True))\<lparr>filteredtopkinf := demo_strict_topk, topk_k := 256\<rparr>)
        [demo_shard 0 [5]] [None] 0 =
       Some (Rejected InvalidKError (state_with_k 256 demo_rejected))
   \<and> rejection_source (env\<lparr>chunkSize := 1\<rparr>)
        ((demo_params (\<lambda>n. 20 * int n) (\<lambda>n. True))\<lparr>topk_k := 0, filteredtopkinf := demo_strict_topk\<rparr>)
        [demo_shard 0 [5]] InvalidKError demo_rejected
   \<and> last (trace demo_rejected) = TopKCall [Some 5] 0 1024 0
   \<and> k_used_late (trace demo_rejected)
   \<and> list_ex is_kernel_call (takeWhile (\<lambda>e. \<not> is_topk_call e) (trace demo_rejected))"
proof -
  let ?P = "(demo_params (\<lambda>n. 20 * int n) (\<lambda>n. True))\<lparr>topk_k := 0, filteredtopkinf := demo_strict_topk\<rparr>"
  have same: "same_answers ?P 256"
    by (simp add: same_answers_def distTopK_def demo_strict_topk_def demo_params_def)
  have tr: "last (trace demo_rejected) = TopKCall [Some 5] 0 1024 0"
    "list_ex is_kernel_call (takeWhile (\<lambda>e. \<not> is_topk_call e) (trace demo_rejected))"
    by (simp_all add: demo_rejected_def)
  from k_not_validated [OF demo_rejected_run]
  have indep: "same_answers ?P 256 \<longrightarrow>
      queryToTiledDist (env\<lparr>chunkSize := 1\<rparr>) (?P\<lparr>topk_k := 256\<rparr>) [demo_shard 0 [5]] [None] 0 =
        Some (outcome_with_k 256 (Rejected InvalidKError demo_rejected))"
    and src: "rejection_source (env\<lparr>chunkSize := 1\<rparr>) ?P [demo_shard 0 [5]] InvalidKError demo_rejected"
    and late: "k_used_late (trace demo_rejected)"
    by simp_all
  from indep same src late demo_rejected_run tr show ?thesis by simp
qed

text \<open>
  Claim C8 as stated fails: with \<open>k = 0\<close> and an engine that does not object, the
  run returns normally, after a kernel call and an assignment to \<open>dists\<close>.
\<close>

theorem k_not_validated_counterexample:
  "topk_k ((demo_params (\<lambda>n. 20 * int n) (\<lambda>n. True))\<lparr>topk_k := 0\<rparr>) \<le> 0
   \<and> queryToTiledDist (env\<lparr>chunkSize := 1\<rparr>)
        ((demo_params (\<lambda>n. 20 * int n) (\<lambda>n. True))\<lparr>topk_k := 0\<rparr>)
        [demo_shard 0 [5]] [None] 0 = Some (Resolved demo_k_zero)
   \<and> trace demo_k_zero ! 1 = KernelCall 0 0 \<lparr>buffer = [5], byteOffset = 0, length_u8 = 1\<rparr>
   \<and> trace demo_k_zero ! 2 = Wrote 0 0 0 (Some 5)"
  using demo_k_zero_run by (simp add: demo_k_zero_def)

section \<open>The cadence of the recomputations\<close>

lemma stamps_append:
  "stamps (tr @ evs) =
     stamps tr @ map (\<lambda>c. case c of (ec, i, t, lp) \<Rightarrow> t)
                  (repaints_from (foldl advance (0, 0, 0, 0) tr) evs)"
  by (simp add: stamps_def repaints_append)

lemma stamps_polled [simp]: "stamps (tr @ [Polled b]) = stamps tr"
proof -
  have "repaints_from c [Polled b :: ('a, 'b) event] = []" for c :: cursor by (cases c) simp
  then show ?thesis by (simp add: stamps_append)
qed

lemma cadence_poll: "cadence E s \<Longrightarrow> cadence E (snd (poll P s))"
  by (simp add: cadence_def)

text \<open>
  One chunk keeps the cadence, provided the clock does not run backwards and the chunk
  is not chunk 0 of shard 0 entered after a recomputation.
\<close>

lemma scan_chunk_cadence:
  assumes inv: "cadence E s"
    and clock: "\<And>m n. m \<le> n \<Longrightarrow> now P m \<le> now P n"
    and pos: "0 < i \<or> 0 < ec \<or> stamps (trace s) = []"
  shows "cadence E (state_of (scan_chunk E P shape ec sh i s))"
proof (cases rule: scan_chunk_repaints [of E P shape ec sh i s])
  case (none evs)
  then have "stamps (trace (state_of (scan_chunk E P shape ec sh i s))) = stamps (trace s)"
    by (simp add: stamps_append)
  with none(3) inv show ?thesis by (simp add: cadence_def)
next
  case (one evs)
  let ?dT = "now P (Suc (clock_reads s))"
  let ?s' = "state_of (scan_chunk E P shape ec sh i s)"
  from one(1,2) have st: "stamps (trace ?s') = stamps (trace s) @ [?dT]"
    by (simp add: stamps_append)
  have gap: "maxTick E < ?dT - last (stamps (trace s))" if ne: "stamps (trace s) \<noteq> []"
  proof -
    from ne pos one(3) have "maxTick E < ?dT - lastPaint s" by (auto simp: repaint_due_def)
    moreover from ne inv have "last (stamps (trace s)) \<le> lastPaint s" by (simp add: cadence_def)
    ultimately show ?thesis by linarith
  qed
  have "successively (\<lambda>a b. maxTick E < b - a) (stamps (trace s) @ [?dT])"
    using inv gap by (auto simp: cadence_def successively_append_iff)
  moreover have "?dT \<le> lastPaint ?s'"
    using one(4) clock [of "Suc (clock_reads s)" "clock_reads s + 3"] by simp
  ultimately show ?thesis by (simp add: cadence_def st)
qed

lemma chunkLoop_cadence:
  assumes run: "chunkLoop E P shape ec sh i s = Some r"
    and clock: "\<And>m n. m \<le> n \<Longrightarrow> now P m \<le> now P n"
    and chunk: "0 < chunkSize E"
  shows "cadence E s \<and> (0 < i \<or> 0 < ec \<or> stamps (trace s) = []) \<longrightarrow> cadence E (state_of r)"
  using run
proof (induction rule: chunkLoop_rule)
  case (exit i s)
  show ?case by simp
next
  case (stop i s)
  show ?case by (simp add: cadence_poll)
next
  case (fail i s e s2)
  show ?case
  proof
    assume a: "cadence E s \<and> (0 < i \<or> 0 < ec \<or> stamps (trace s) = [])"
    then have "cadence E (snd (poll P s))" by (simp add: cadence_poll)
    moreover from a have "0 < i \<or> 0 < ec \<or> stamps (trace (snd (poll P s))) = []" by simp
    ultimately have "cadence E (state_of (scan_chunk E P shape ec sh i (snd (poll P s))))"
      using clock by (intro scan_chunk_cadence) auto
    with fail(3) show "cadence E (state_of (Rejected e s2))" by simp
  qed
next
  case (step i s s2 r)
  show ?case
  proof
    assume a: "cadence E s \<and> (0 < i \<or> 0 < ec \<or> stamps (trace s) = [])"
    then have "cadence E (snd (poll P s))" by (simp add: cadence_poll)
    moreover from a have "0 < i \<or> 0 < ec \<or> stamps (trace (snd (poll P s))) = []" by simp
    ultimately have "cadence E (state_of (scan_chunk E P shape ec sh i (snd (poll P s))))"
      using clock by (intro scan_chunk_cadence) auto
    with step(3) have "cadence E s2" by simp
    with step.IH chunk show "cadence E (state_of r)" by simp
  qed
qed

lemma shardLoop_cadence:
  assumes run: "shardLoop E P shape ec shards s = Some r"
    and clock: "\<And>m n. m \<le> n \<Longrightarrow> now P m \<le> now P n"
    and chunk: "0 < chunkSize E"
    and inv: "cadence E s"
    and pos: "0 < ec \<or> stamps (trace s) = []"
  shows "cadence E (state_of r)"
  using run inv pos
proof (induction shards arbitrary: ec s)
  case Nil
  then have "r = Resolved s" by simp
  with Nil show ?case by simp
next
  case (Cons sh rest)
  from Cons.prems(1) obtain r1 where r1: "chunkLoop E P shape ec sh 0 s = Some r1"
    by (auto split: option.splits)
  from chunkLoop_cadence [OF r1 clock chunk] Cons.prems(2,3)
  have c1: "cadence E (state_of r1)" by auto
  show ?case
  proof (cases r1)
    case (Rejected e s1)
    with Cons.prems(1) r1 have "r = Rejected e s1" by simp
    with c1 Rejected show ?thesis by simp
  next
    case (Resolved s1)
    with Cons.prems(1) r1 have "shardLoop E P shape (Suc ec) rest s1 = Some r" by simp
    moreover from c1 Resolved have "cadence E s1" by simp
    ultimately show ?thesis by (rule Cons.IH) simp
  qed
qed

lemma stamps_finish: "stamps (trace (state_of (finish P s))) = stamps (trace s)"
proof -
  obtain evs where evs: "trace (state_of (finish P s)) = trace s @ evs"
    using finish_grows by blast
  then have "repaints_from c evs = []" for c by (rule repaints_from_finish)
  with evs show ?thesis by (simp add: stamps_append)
qed

lemma run_cadence:
  assumes run: "queryToTiledDist E P embeddings d0 ec0 = Some r"
    and clock: "\<And>m n. m \<le> n \<Longrightarrow> now P m \<le> now P n"
    and chunk: "0 < chunkSize E"
  shows "successively (\<lambda>a b. maxTick E < b - a) (stamps (trace (state_of r)))"
proof -
  have none: "stamps (trace (start_state P d0)) = []"
    by (simp add: stamps_def repaints_def)
  then have start: "cadence E (start_state P d0)"
    by (simp add: cadence_def)
  from run show ?thesis
  proof (cases rule: queryToTiledDist_cases)
    case (shape e)
    then show ?thesis by (simp add: stamps_def repaints_def)
  next
    case (scan shape e s1)
    have "cadence E (state_of (Rejected e s1))"
      by (rule shardLoop_cadence [OF scan(2) clock chunk start]) (simp_all add: stamps_def repaints_def)
    with scan(3) show ?thesis by (simp add: cadence_def)
  next
    case (finish shape s1)
    have "cadence E (state_of (Resolved s1))"
      by (rule shardLoop_cadence [OF finish(2) clock chunk start]) (simp_all add: stamps_def repaints_def)
    with finish(3) show ?thesis by (simp add: cadence_def stamps_finish)
  qed
qed

lemma demo_three_chunks_run:
  "queryToTiledDist (env\<lparr>chunkSize := 1\<rparr>) (demo_params (\<lambda>n. 20 * int n) (\<lambda>n. True))
     [demo_shard 0 [5, 6], demo_shard 2 [7]] [None, None, None] 0 =
   Some (Resolved demo_three_chunks)"
  by (simp add: run_defs demo_defs chunkLoop.simps demo_three_chunks_def)

text \<open>
  Claim C6. With a clock that does not run backwards (and a positive \<open>chunkSize\<close>),
  in every run that returns, the \<open>distTime\<close> readings of the chunks that any two
  consecutive \<open>{topk}\<close> updates of the scan follow are at least \<open>maxTick\<close> apart
  (more than \<open>maxTick\<close>, in fact: \<open>run_cadence\<close>). The first recomputation is
  included; the final update is of another kind and is not.
\<close>

theorem repaint_cadence:
  assumes run: "queryToTiledDist E P embeddings d0 ec0 = Some r"
    and clock: "mono (now P)"
    and chunk: "0 < chunkSize E"
  shows "successively (\<lambda>a b. maxTick E \<le> b - a) (stamps (trace (state_of r)))"
proof -
  have "successively (\<lambda>a b. maxTick E < b - a) (stamps (trace (state_of r)))"
    using run _ chunk by (rule run_cadence) (rule monoD [OF clock])
  then show ?thesis by (rule successively_mono) simp
qed

theorem repaint_cadence_witness:
  "queryToTiledDist (env\<lparr>chunkSize := 1\<rparr>) (demo_params (\<lambda>n. 20 * int n) (\<lambda>n. True))
     [demo_shard 0 [5, 6], demo_shard 2 [7]] [None, None, None] 0 =
   Some (Resolved demo_three_chunks)
   \<and> mono (now (demo_params (\<lambda>n. 20 * int n) (\<lambda>n. True)))
   \<and> 0 < chunkSize (env\<lparr>chunkSize := 1\<rparr>)
   \<and> stamps (trace demo_three_chunks) = [40, 120, 200]
   \<and> successively (\<lambda>a b. maxTick (env\<lparr>chunkSize := 1\<rparr>) \<le> b - a)
        (stamps (trace demo_three_chunks))"
proof -
  have clock: "mono (now (demo_params (\<lambda>n. 20 * int n) (\<lambda>n. True)))"
    by (simp add: demo_params_def mono_def)
  have chunk: "0 < chunkSize (env\<lparr>chunkSize := 1\<rparr>)" by simp
  have st: "stamps (trace demo_three_chunks) = [40, 120, 200]"
    by (simp add: demo_three_chunks_def stamps_def repaints_def)
  from repaint_cadence [OF demo_three_chunks_run clock chunk]
  have "successively (\<lambda>a b. maxTick (env\<lparr>chunkSize := 1\<rparr>) \<le> b - a)
      (stamps (trace demo_three_chunks))" by simp
  with demo_three_chunks_run clock chunk st show ?thesis by simp
qed

section \<open>Cancellation\<close>

lemma after_stop_none: "Polled False \<notin> set tr \<Longrightarrow> after_stop tr = []"
proof -
  assume "Polled False \<notin> set tr"
  then have "dropWhile (\<lambda>e. e \<noteq> Polled False) tr = []"
    by (auto simp: dropWhile_eq_Nil_conv)
  then show ?thesis by (simp only: after_stop_def list.sel)
qed

lemma after_stop_append: "Polled False \<in> set tr \<Longrightarrow> after_stop (tr @ evs) = after_stop tr @ evs"
proof -
  assume a: "Polled False \<in> set tr"
  then have "dropWhile (\<lambda>e. e \<noteq> Polled False) tr \<noteq> []"
    by (auto simp: dropWhile_eq_Nil_conv)
  moreover from a have "dropWhile (\<lambda>e. e \<noteq> Polled False) (tr @ evs) =
      dropWhile (\<lambda>e. e \<noteq> Polled False) tr @ evs"
    by (intro dropWhile_append1 [of "Polled False"]) simp_all
  ultimately show ?thesis unfolding after_stop_def by (metis tl_append2)
qed

lemma after_stop_first: "Polled False \<notin> set tr \<Longrightarrow> after_stop (tr @ Polled False # evs) = evs"
proof -
  assume a: "Polled False \<notin> set tr"
  have "dropWhile (\<lambda>e. e \<noteq> Polled False) (tr @ Polled False # evs) =
      dropWhile (\<lambda>e. e \<noteq> Polled False) (Polled False # evs)"
    by (rule dropWhile_append2) (use a in auto)
  then show ?thesis by (simp add: after_stop_def)
qed

lemma halted_no_stop:
  assumes h: "halted P s" and sticky: "antimono (continueFn P)" and go: "continueFn P (polls s)"
  shows "Polled False \<notin> set (trace s)"
proof
  assume "Polled False \<in> set (trace s)"
  then have "Polled False \<in> set (filter is_polled (trace s))" by simp
  with h obtain n where n: "n < polls s" and "\<not> continueFn P n"
    by (auto simp: halted_def)
  moreover have "continueFn P n"
  proof -
    from n have "n \<le> polls s" by simp
    with sticky have "continueFn P (polls s) \<le> continueFn P n" by (rule antimonoD)
    with go show ?thesis by (simp add: le_bool_def)
  qed
  ultimately show False by simp
qed

lemma chunk_event_not_polled: "list_all chunk_event evs \<Longrightarrow> filter is_polled evs = []"
proof (induction evs)
  case Nil
  show ?case by simp
next
  case (Cons e evs)
  then show ?case by (cases e) simp_all
qed

lemma chunk_event_no_stop: "list_all chunk_event evs \<Longrightarrow> Polled False \<notin> set evs"
  by (auto simp: list_all_iff)

lemma halted_stop:
  assumes h: "halted P s" and stop: "\<not> continueFn P (polls s)"
  shows "halted P (snd (poll P s))"
proof (cases "Polled False \<in> set (trace s)")
  case True
  with h stop show ?thesis by (simp add: halted_def after_stop_append)
next
  case False
  with h stop show ?thesis
    using after_stop_first [of "trace s" "[]"] by (simp add: halted_def)
qed

lemma halted_go:
  assumes h: "halted P s" and sticky: "antimono (continueFn P)" and go: "continueFn P (polls s)"
    and tr: "trace s' = trace s @ Polled True # evs" and evs: "filter is_polled evs = []"
      "Polled False \<notin> set evs"
    and polls: "polls s' = Suc (polls s)"
  shows "halted P s'"
proof -
  from h sticky go have "Polled False \<notin> set (trace s)" by (rule halted_no_stop)
  with tr evs(2) have "Polled False \<notin> set (trace s')" by simp
  then have "after_stop (trace s') = []" by (rule after_stop_none)
  with h go tr evs(1) polls show ?thesis by (simp add: halted_def)
qed

lemma run_halted:
  assumes run: "queryToTiledDist E P embeddings d0 ec0 = Some r"
    and sticky: "antimono (continueFn P)"
  shows "halted P (state_of r)"
proof -
  have "halted P (start_state P d0) \<longrightarrow> halted P (state_of r)"
    using run
  proof (rule run_preorder [where R = "\<lambda>a b. halted P a \<longrightarrow> halted P b"], goal_cases)
    case (1 s)
    show ?case by simp
  next
    case (2 a b c)
    then show ?case by simp
  next
    case (3 s)
    then show ?case by (simp add: halted_stop)
  next
    case (4 shape ec sh i s)
    let ?s' = "state_of (scan_chunk E P shape ec sh i (snd (poll P s)))"
    obtain evs where evs: "trace ?s' = trace (snd (poll P s)) @ evs" "list_all chunk_event evs"
      using scan_chunk_events by blast
    show ?case
    proof
      assume h: "halted P s"
      from evs(1) 4 have tr: "trace ?s' = trace s @ Polled True # evs" by simp
      have np: "filter is_polled evs = []" using evs(2) by (rule chunk_event_not_polled)
      have ns: "Polled False \<notin> set evs" using evs(2) by (rule chunk_event_no_stop)
      have polls: "polls ?s' = Suc (polls s)" by (simp add: scan_chunk_polls)
      from h sticky 4 tr np ns polls show "halted P ?s'" by (rule halted_go)
    qed
  next
    case (5 s)
    show ?case
    proof
      assume h: "halted P s"
      show "halted P (state_of (finish P s))"
      proof (cases rule: finish_cases [of P s])
        case cancelled
        with h show ?thesis by (simp add: halted_stop)
      next
        case (failed e)
        let ?evs = "[TopKCall (dists s) 0 1024 (topk_k P)] :: ('a, 'b) event list"
        from failed have tr: "trace (state_of (finish P s)) = trace s @ Polled True # ?evs"
          and polls: "polls (state_of (finish P s)) = Suc (polls s)" by simp_all
        have np: "filter is_polled ?evs = []" and ns: "Polled False \<notin> set ?evs" by simp_all
        from h sticky failed(1) tr np ns polls show ?thesis by (rule halted_go)
      next
        case (final topk)
        let ?evs = "[TopKCall (dists s) 0 1024 (topk_k P),
            Emitted (FinalUpdate (dists s) (timingStrings s) topk)] :: ('a, 'b) event list"
        from final have tr: "trace (state_of (finish P s)) = trace s @ Polled True # ?evs"
          and polls: "polls (state_of (finish P s)) = Suc (polls s)" by simp_all
        have np: "filter is_polled ?evs = []" and ns: "Polled False \<notin> set ?evs" by simp_all
        from h sticky final(1) tr np ns polls show ?thesis by (rule halted_go)
      qed
    qed
  qed
  moreover have "halted P (start_state P d0)" by (simp add: halted_def after_stop_def)
  ultimately show ?thesis by simp
qed

lemma replay_append: "replay (xs @ ys) d = replay ys (replay xs d)"
  by (simp add: replay_def)

lemma replay_writes:
  "replay (map (\<lambda>j. Wrote ec i (f j) (g j)) js) d = fold (\<lambda>j d. d[f j := g j]) js d"
  by (induction js arbitrary: d) (simp_all add: replay_def)

lemma replay_simps [simp]:
  "replay [] d = d"
  "replay (Wrote ec i x v # evs) d = replay evs (d[x := v])"
  "replay (Polled b # evs) d = replay evs d"
  "replay (KernelCall ec i tile # evs) d = replay evs d"
  "replay (KernelDone t # evs) d = replay evs d"
  "replay (Emitted u # evs) d = replay evs d"
  "replay (TopKCall d' fz fs kk # evs) d = replay evs d"
  "replay (Yielded # evs) d = replay evs d"
  by (simp_all add: replay_def)

lemma repaint_replay:
  "\<exists>evs. trace (state_of (repaint P t s)) = trace s @ evs
     \<and> dists (state_of (repaint P t s)) = replay evs (dists s)"
proof (cases "distTopK (filteredtopkinf P) (dists s) (firstLetters P) (firstLetterInt P) 0 1024 (topk_k P)")
  case (Inl e)
  then show ?thesis by (simp add: repaint_Inl)
next
  case (Inr topk)
  from repaint_Inr [OF this, of t] obtain s' where "repaint P t s = Resolved s'"
    and "trace s' = trace s @ [TopKCall (dists s) 0 1024 (topk_k P), Emitted (TopKUpdate topk), Yielded]"
    and "dists s' = dists s" by blast
  then show ?thesis by simp
qed

lemma scan_chunk_replay:
  "\<exists>evs. trace (state_of (scan_chunk E P shape ec sh i s)) = trace s @ evs
     \<and> dists (state_of (scan_chunk E P shape ec sh i s)) = replay evs (dists s)"
proof (cases rule: scan_chunk_cases [of E P sh i shape ec s])
  case (range e)
  then show ?thesis by simp
next
  case (kernel tile e)
  then show ?thesis by simp
next
  case (delivered tile distTile)
  let ?d = "delivered E P ec sh i tile distTile s"
  have d: "\<exists>evs. trace ?d = trace s @ evs \<and> dists ?d = replay evs (dists s)"
    by (simp add: replay_append replay_writes)
  show ?thesis
  proof (cases "repaint_due E P ec i s")
    case False
    with delivered(3) d show ?thesis by simp
  next
    case True
    from d obtain evs1 where "trace ?d = trace s @ evs1" "dists ?d = replay evs1 (dists s)"
      by blast
    moreover obtain evs2 where
      "trace (state_of (repaint P (now P (Suc (clock_reads s))) ?d)) = trace ?d @ evs2"
      "dists (state_of (repaint P (now P (Suc (clock_reads s))) ?d)) = replay evs2 (dists ?d)"
      using repaint_replay by blast
    ultimately have
      "trace (state_of (repaint P (now P (Suc (clock_reads s))) ?d)) = trace s @ (evs1 @ evs2)
       \<and> dists (state_of (repaint P (now P (Suc (clock_reads s))) ?d))
           = replay (evs1 @ evs2) (dists s)"
      by (simp add: replay_append)
    with True delivered(3) show ?thesis by (simp del: delivered_simps)
  qed
qed

lemma finish_replay:
  "\<exists>evs. trace (state_of (finish P s)) = trace s @ evs
     \<and> dists (state_of (finish P s)) = replay evs (dists s)"
  by (cases rule: finish_cases [of P s]) simp_all

text \<open>The distance array of a run is the caller's array with the trace's assignments.\<close>

lemma run_replay:
  assumes "queryToTiledDist E P embeddings d0 ec0 = Some r"
  shows "dists (state_of r) = replay (trace (state_of r)) d0"
proof -
  let ?R = "\<lambda>a b. \<exists>evs. trace b = trace a @ evs \<and> dists b = replay evs (dists a)"
  from assms have "?R (start_state P d0) (state_of r)"
  proof (rule run_preorder [where R = ?R], goal_cases)
    case (1 s)
    show ?case by simp
  next
    case (2 a b c)
    then obtain evs1 evs2 where "trace b = trace a @ evs1" "dists b = replay evs1 (dists a)"
      "trace c = trace b @ evs2" "dists c = replay evs2 (dists b)" by blast
    then have "trace c = trace a @ (evs1 @ evs2) \<and> dists c = replay (evs1 @ evs2) (dists a)"
      by (simp add: replay_append)
    then show ?case by blast
  next
    case (3 s)
    show ?case by simp
  next
    case (4 shape ec sh i s)
    let ?s' = "state_of (scan_chunk E P shape ec sh i (snd (poll P s)))"
    obtain evs where "trace ?s' = trace (snd (poll P s)) @ evs"
      "dists ?s' = replay evs (dists (snd (poll P s)))"
      using scan_chunk_replay by blast
    then have "trace ?s' = trace s @ (Polled (continueFn P (polls s)) # evs)
        \<and> dists ?s' = replay (Polled (continueFn P (polls s)) # evs) (dists s)" by simp
    then show ?case by blast
  next
    case (5 s)
    show ?case by (rule finish_replay)
  qed
  then show ?thesis by simp
qed

lemma whole_chunks_append:
  assumes "whole_chunks E P shape xs" and "whole_chunks E P shape ys"
  shows "whole_chunks E P shape (xs @ ys)"
  unfolding whole_chunks_def
proof (intro allI impI)
  fix ec i tile distTile
  assume a: "KernelCall ec i tile \<in> set (xs @ ys) \<and> call_queryDist E P shape tile = Inr distTile"
  then consider "KernelCall ec i tile \<in> set xs" | "KernelCall ec i tile \<in> set ys" by auto
  then show "\<exists>off. \<forall>j<chunkSize E. Wrote ec i (off + i + j) (at_index distTile j) \<in> set (xs @ ys)"
  proof cases
    case 1
    with a assms(1) obtain off where
      "\<forall>j<chunkSize E. Wrote ec i (off + i + j) (at_index distTile j) \<in> set xs"
      unfolding whole_chunks_def by blast
    then show ?thesis by auto
  next
    case 2
    with a assms(2) obtain off where
      "\<forall>j<chunkSize E. Wrote ec i (off + i + j) (at_index distTile j) \<in> set ys"
      unfolding whole_chunks_def by blast
    then show ?thesis by auto
  qed
qed

lemma whole_chunks_no_kernel_call:
  "\<not> list_ex is_kernel_call evs \<Longrightarrow> whole_chunks E P shape evs"
  by (auto simp: whole_chunks_def list_ex_iff)

lemma whole_chunks_chunk:
  assumes "call_queryDist E P shape tile = Inr distTile"
    and "\<not> list_ex is_kernel_call evs"
  shows "whole_chunks E P shape
           (KernelCall ec i tile
              # map (\<lambda>j. Wrote ec i (off + i + j) (at_index distTile j)) [0..<chunkSize E] @ evs)"
  unfolding whole_chunks_def using assms
  by (auto simp: list_ex_iff intro!: exI [of _ off])

lemma scan_chunk_whole:
  "\<exists>evs. trace (state_of (scan_chunk E P shape ec sh i s)) = trace s @ evs
     \<and> whole_chunks E P shape evs"
proof (cases rule: scan_chunk_outcomes [of E P sh i shape ec s])
  case (range e s')
  then show ?thesis by (simp add: whole_chunks_no_kernel_call)
next
  case (kernel tile e s')
  have "whole_chunks E P shape [KernelCall ec i tile]"
    using kernel(2) by (auto simp: whole_chunks_def)
  with kernel show ?thesis by simp
next
  case (quiet tile distTile)
  let ?evs = "KernelCall ec i tile
      # map (\<lambda>j. Wrote ec i (offset sh + i + j) (at_index distTile j)) [0..<chunkSize E]
      @ [KernelDone (now P (Suc (clock_reads s))),
         Emitted (DistanceUpdate
           (fold (\<lambda>j d. d[offset sh + i + j := at_index distTile j]) [0..<chunkSize E] (dists s))
           (timingStrings s @ [DistMs (now P (Suc (clock_reads s)) - now P (clock_reads s))])
           (lastPaint s))]"
  have "whole_chunks E P shape ?evs" using quiet(2) by (rule whole_chunks_chunk) simp
  moreover have "trace (state_of (scan_chunk E P shape ec sh i s)) = trace s @ ?evs"
    using quiet(4) by simp
  ultimately show ?thesis by blast
next
  case (engine tile distTile e s')
  let ?d = "delivered E P ec sh i tile distTile s"
  let ?evs = "KernelCall ec i tile
      # map (\<lambda>j. Wrote ec i (offset sh + i + j) (at_index distTile j)) [0..<chunkSize E]
      @ [KernelDone (now P (Suc (clock_reads s))),
         Emitted (DistanceUpdate
           (fold (\<lambda>j d. d[offset sh + i + j := at_index distTile j]) [0..<chunkSize E] (dists s))
           (timingStrings s @ [DistMs (now P (Suc (clock_reads s)) - now P (clock_reads s))])
           (lastPaint s)),
         TopKCall (dists ?d) 0 1024 (topk_k P)]"
  have "whole_chunks E P shape ?evs" using engine(2) by (rule whole_chunks_chunk) simp
  moreover have "trace (state_of (scan_chunk E P shape ec sh i s)) = trace s @ ?evs"
    using engine(5,6) by simp
  ultimately show ?thesis by blast
next
  case (repainted tile distTile topk s')
  let ?d = "delivered E P ec sh i tile distTile s"
  let ?evs = "KernelCall ec i tile
      # map (\<lambda>j. Wrote ec i (offset sh + i + j) (at_index distTile j)) [0..<chunkSize E]
      @ [KernelDone (now P (Suc (clock_reads s))),
         Emitted (DistanceUpdate
           (fold (\<lambda>j d. d[offset sh + i + j := at_index distTile j]) [0..<chunkSize E] (dists s))
           (timingStrings s @ [DistMs (now P (Suc (clock_reads s)) - now P (clock_reads s))])
           (lastPaint s)),
         TopKCall (dists ?d) 0 1024 (topk_k P), Emitted (TopKUpdate topk), Yielded]"
  have "whole_chunks E P shape ?evs" using repainted(2) by (rule whole_chunks_chunk) simp
  moreover have "trace (state_of (scan_chunk E P shape ec sh i s)) = trace s @ ?evs"
    using repainted(5,6) by simp
  ultimately show ?thesis by blast
qed

lemma shardLoop_whole:
  assumes "shardLoop E P shape ec shards s = Some r"
  shows "\<exists>evs. trace (state_of r) = trace s @ evs \<and> whole_chunks E P shape evs"
  using assms
proof (rule shardLoop_preorder
    [where R = "\<lambda>a b. \<exists>evs. trace b = trace a @ evs \<and> whole_chunks E P shape evs"], goal_cases)
  case (1 s)
  show ?case by (simp add: whole_chunks_no_kernel_call)
next
  case (2 a b c)
  then obtain evs1 evs2 where "trace b = trace a @ evs1" "whole_chunks E P shape evs1"
    "trace c = trace b @ evs2" "whole_chunks E P shape evs2" by blast
  then have "trace c = trace a @ (evs1 @ evs2) \<and> whole_chunks E P shape (evs1 @ evs2)"
    by (simp add: whole_chunks_append)
  then show ?case by blast
next
  case (3 s)
  show ?case by (simp add: whole_chunks_no_kernel_call)
next
  case (4 ec sh i s)
  obtain evs where evs: "trace (state_of (scan_chunk E P shape ec sh i (snd (poll P s)))) =
      trace (snd (poll P s)) @ evs" "whole_chunks E P shape evs"
    using scan_chunk_whole by blast
  have "whole_chunks E P shape [Polled (continueFn P (polls s))]"
    by (rule whole_chunks_no_kernel_call) simp
  then have "whole_chunks E P shape ([Polled (continueFn P (polls s))] @ evs)"
    using evs(2) by (rule whole_chunks_append)
  with evs(1) have "trace (state_of (scan_chunk E P shape ec sh i (snd (poll P s)))) =
      trace s @ (Polled (continueFn P (polls s)) # evs)
      \<and> whole_chunks E P shape (Polled (continueFn P (polls s)) # evs)" by simp
  then show ?case by blast
qed

lemma run_whole:
  assumes run: "queryToTiledDist E P embeddings d0 ec0 = Some r"
    and shape: "codebookshape_of (codebk P) = Inr shape"
  shows "whole_chunks E P shape (trace (state_of r))"
  using run
proof (cases rule: queryToTiledDist_cases)
  case (shape e)
  then show ?thesis by (simp add: whole_chunks_no_kernel_call)
next
  case (scan shape' e s1)
  with shape have "shape' = shape" by simp
  with shardLoop_whole [OF scan(2)] scan(3) show ?thesis by simp
next
  case (finish shape' s1)
  with shape have eq: "shape' = shape" by simp
  from shardLoop_whole [OF finish(2)] eq have w: "whole_chunks E P shape (trace s1)" by simp
  obtain evs where evs: "trace (state_of (finish P s1)) = trace s1 @ evs"
    using finish_grows by blast
  then have "\<not> list_ex is_kernel_call evs" by (rule finish_no_kernel_call)
  then have "whole_chunks E P shape evs" by (rule whole_chunks_no_kernel_call)
  with w evs finish(3) show ?thesis by (simp add: whole_chunks_append)
qed

lemma demo_cancelled_run:
  "queryToTiledDist (env\<lparr>chunkSize := 1\<rparr>) (demo_params (\<lambda>n. 10 * int n) (\<lambda>n. n < 1))
     [demo_shard 0 [5, 6], demo_shard 2 [7]] [None, None, None] 0 = Some (Resolved demo_cancelled)"
  by (simp add: run_defs demo_defs chunkLoop.simps demo_cancelled_def)

lemma demo_flaky_run:
  "queryToTiledDist (env\<lparr>chunkSize := 1\<rparr>) (demo_params (\<lambda>n. 10 * int n) (\<lambda>n. n \<noteq> 1))
     [demo_shard 0 [5, 6], demo_shard 2 [7]] [None, None, None] 0 = Some (Resolved demo_flaky)"
  by (simp add: run_defs demo_defs chunkLoop.simps demo_flaky_def)

text \<open>
  Claim C5, as the code has it. The code does not remember a "stop": it asks
  \<open>continueFn\<close> again at the first chunk of every later shard and at the end. For a
  predicate that, once it has answered "stop", answers "stop" at every later call:
  after the first "stop" the trace holds nothing but further "stop" answers (no kernel
  call, no assignment to \<open>dists\<close>, no recomputation, no update, no final
  recomputation); every chunk whose kernel call returned has all its \<open>chunkSize\<close>
  assignments in the trace; and the distance array is the caller's array with exactly
  the assignments of the trace.
\<close>

theorem cancellation_halts:
  assumes run: "queryToTiledDist E P embeddings d0 ec0 = Some r"
    and sticky: "antimono (continueFn P)"
    and shape: "codebookshape_of (codebk P) = Inr shape"
  shows "list_all (\<lambda>e. e = Polled False) (after_stop (trace (state_of r)))
         \<and> whole_chunks E P shape (trace (state_of r))
         \<and> dists (state_of r) = replay (trace (state_of r)) d0"
  using run_halted [OF run sticky] run_whole [OF run shape] run_replay [OF run]
  by (simp add: halted_def)

theorem cancellation_halts_witness:
  "queryToTiledDist (env\<lparr>chunkSize := 1\<rparr>) (demo_params (\<lambda>n. 10 * int n) (\<lambda>n. n < 1))
     [demo_shard 0 [5, 6], demo_shard 2 [7]] [None, None, None] 0 = Some (Resolved demo_cancelled)
   \<and> antimono (continueFn (demo_params (\<lambda>n. 10 * int n) (\<lambda>n. n < 1)))
   \<and> codebookshape_of (codebk (demo_params (\<lambda>n. 10 * int n) (\<lambda>n. n < 1))) = Inr [1, 1, 1]
   \<and> after_stop (trace demo_cancelled) = [Polled False, Polled False]
   \<and> list_all (\<lambda>e. e = Polled False) (after_stop (trace demo_cancelled))
   \<and> whole_chunks (env\<lparr>chunkSize := 1\<rparr>) (demo_params (\<lambda>n. 10 * int n) (\<lambda>n. n < 1)) [1, 1, 1]
        (trace demo_cancelled)
   \<and> dists demo_cancelled = replay (trace demo_cancelled) [None, None, None]"
proof -
  let ?P = "demo_params (\<lambda>n. 10 * int n) (\<lambda>n. n < 1)"
  have "antimono (\<lambda>n :: nat. n < 1)" by (rule antimonoI) (auto simp: le_bool_def)
  moreover have "continueFn ?P = (\<lambda>n. n < 1)" by (simp add: demo_params_def)
  ultimately have sticky: "antimono (continueFn ?P)" by (simp only:)
  have shape: "codebookshape_of (codebk ?P) = Inr [1, 1, 1]"
    by (simp add: demo_params_def codebookshape_of_def)
  have stop: "after_stop (trace demo_cancelled) = [Polled False, Polled False]"
    by (simp add: demo_cancelled_def after_stop_def)
  from cancellation_halts [OF demo_cancelled_run sticky shape] demo_cancelled_run sticky shape stop
  show ?thesis by simp
qed

text \<open>
  Claim C5 as stated fails: this predicate answers "stop" at its second call, before the
  second chunk of shard 0, and "continue" again afterwards; the chunk of shard 1 is
  processed after the stop and the final update is emitted.
\<close>

theorem cancellation_halts_counterexample:
  "queryToTiledDist (env\<lparr>chunkSize := 1\<rparr>) (demo_params (\<lambda>n. 10 * int n) (\<lambda>n. n \<noteq> 1))
     [demo_shard 0 [5, 6], demo_shard 2 [7]] [None, None, None] 0 = Some (Resolved demo_flaky)
   \<and> \<not> continueFn (demo_params (\<lambda>n. 10 * int n) (\<lambda>n. n \<noteq> 1)) 1
   \<and> after_stop (trace demo_flaky) =
       [Polled True,
        KernelCall 1 0 \<lparr>buffer = [7], byteOffset = 0, length_u8 = 1\<rparr>,
        Wrote 1 0 2 (Some 7), KernelDone 60,
        Emitted (DistanceUpdate [Some 5, None, Some 7] [DistMs 10, TopkMs 10, DistMs 10] 40),
        Polled True, TopKCall [Some 5, None, Some 7] 0 1024 1,
        Emitted (FinalUpdate [Some 5, None, Some 7] [DistMs 10, TopkMs 10, DistMs 10] 2)]"
  using demo_flaky_run by (simp add: demo_flaky_def after_stop_def demo_params_def)

section \<open>Coverage of the distance array\<close>

lemma writes_append [simp]: "writes (xs @ ys) = writes xs @ writes ys"
  by (simp add: writes_def)

lemma writes_simps [simp]:
  "writes [] = []"
  "writes (Wrote ec i x v # evs) = (ec, i, x) # writes evs"
  "writes (Polled b # evs) = writes evs"
  "writes (KernelCall ec i tile # evs) = writes evs"
  "writes (KernelDone t # evs) = writes evs"
  "writes (Emitted u # evs) = writes evs"
  "writes (TopKCall d fz fs kk # evs) = writes evs"
  "writes (Yielded # evs) = writes evs"
  by (simp_all add: writes_def)

lemma writes_map_Wrote [simp]:
  "writes (map (\<lambda>j. Wrote ec i (f j) (g j)) js) = map (\<lambda>j. (ec, i, f j)) js"
  by (induction js) simp_all

text \<open>
  A chunk inside a tiled shard, with a kernel and an engine that return: it ends
  normally and adds exactly its \<open>chunkSize\<close> assignments.
\<close>

lemma embeddingTile_of_inside:
  assumes "wf_uint8array (data sh)"
    and "i * length (codebk P) + chunkSize E * length (codebk P) \<le> length_u8 (data sh)"
  shows "\<exists>tile. embeddingTile_of E P sh i = Inr tile"
  using assms by (simp add: embeddingTile_of_def new_Uint8Array_def wf_uint8array_def)

lemma scan_chunk_complete:
  assumes wf: "wf_uint8array (data sh)"
    and inside: "i * length (codebk P) + chunkSize E * length (codebk P) \<le> length_u8 (data sh)"
    and kernel_ok: "\<And>tile. \<exists>distTile. call_queryDist E P shape tile = Inr distTile"
    and engine_ok: "\<And>d. \<exists>topk. distTopK (filteredtopkinf P) d (firstLetters P) (firstLetterInt P)
                                0 1024 (topk_k P) = Inr topk"
  shows "\<exists>s'. scan_chunk E P shape ec sh i s = Resolved s'
           \<and> writes (trace s') = writes (trace s)
                @ map (\<lambda>j. (ec, i, offset sh + i + j)) [0..<chunkSize E]
           \<and> polls s' = polls s"
proof (cases rule: scan_chunk_outcomes [of E P sh i shape ec s])
  case (range e s')
  with embeddingTile_of_inside [OF wf inside] show ?thesis by simp
next
  case (kernel tile e s')
  with kernel_ok [of tile] show ?thesis by simp
next
  case (quiet tile distTile)
  then show ?thesis by simp
next
  case (engine tile distTile e s')
  with engine_ok [of "dists (delivered E P ec sh i tile distTile s)"] show ?thesis by simp
next
  case (repainted tile distTile topk s')
  then show ?thesis by simp
qed

lemma shard_writes_Nil [simp]: "shard_writes E P ec sh [] = []"
  by (simp add: shard_writes_def)

lemma shard_writes_Cons:
  "shard_writes E P ec sh (k # ks) =
     map (\<lambda>j. (ec, k * chunkSize E, offset sh + k * chunkSize E + j)) [0..<chunkSize E]
       @ shard_writes E P ec sh ks"
  by (simp add: shard_writes_def)

lemma shard_writes_no_chunk: "chunkSize E = 0 \<Longrightarrow> shard_writes E P ec sh ks = []"
  by (simp add: shard_writes_def)

text \<open>
  The inner loop over a tiled shard of \<open>m\<close> chunks, never cancelled, entered at chunk
  \<open>j\<close>: it returns, having added the assignments of the chunks \<open>j, ..., m - 1\<close>.
\<close>

lemma chunkLoop_complete:
  assumes wf: "wf_uint8array (data sh)"
    and len: "length_u8 (data sh) = m * chunkSize E * length (codebk P)"
    and cb: "0 < length (codebk P)"
    and cont: "\<And>n. continueFn P n"
    and kernel_ok: "\<And>tile. \<exists>distTile. call_queryDist E P shape tile = Inr distTile"
    and engine_ok: "\<And>d. \<exists>topk. distTopK (filteredtopkinf P) d (firstLetters P) (firstLetterInt P)
                                0 1024 (topk_k P) = Inr topk"
    and j: "j \<le> m"
  shows "\<exists>s'. chunkLoop E P shape ec sh (j * chunkSize E) s = Some (Resolved s')
           \<and> writes (trace s') = writes (trace s) @ shard_writes E P ec sh [j..<m]"
  using j
proof (induction "m - j" arbitrary: j s)
  case 0
  then have "j = m" by simp
  then have "\<not> j * chunkSize E * length (codebk P) < length_u8 (data sh)" by (simp add: len)
  then have "chunkLoop E P shape ec sh (j * chunkSize E) s = Some (Resolved s)"
    by (subst chunkLoop.simps) simp
  with \<open>j = m\<close> show ?case by simp
next
  case (Suc d)
  then have jm: "j < m" by simp
  show ?case
  proof (cases "chunkSize E = 0")
    case True
    then have "\<not> j * chunkSize E * length (codebk P) < length_u8 (data sh)" by (simp add: len)
    then have "chunkLoop E P shape ec sh (j * chunkSize E) s = Some (Resolved s)"
      by (subst chunkLoop.simps) simp
    with True show ?thesis by (simp add: shard_writes_no_chunk)
  next
    case False
    with jm cb have "j * (chunkSize E * length (codebk P)) < m * (chunkSize E * length (codebk P))"
      by simp
    then have cond: "j * chunkSize E * length (codebk P) < length_u8 (data sh)"
      by (simp add: len mult.assoc)
    from jm have "Suc j * (chunkSize E * length (codebk P)) \<le> m * (chunkSize E * length (codebk P))"
      by (intro mult_le_mono1) simp
    then have inside: "j * chunkSize E * length (codebk P) + chunkSize E * length (codebk P)
        \<le> length_u8 (data sh)"
      by (simp add: len mult.assoc)
    from scan_chunk_complete [OF wf inside kernel_ok engine_ok, of ec "snd (poll P s)"]
    obtain s2 where s2: "scan_chunk E P shape ec sh (j * chunkSize E) (snd (poll P s)) = Resolved s2"
      and w2: "writes (trace s2) = writes (trace s)
          @ map (\<lambda>jj. (ec, j * chunkSize E, offset sh + j * chunkSize E + jj)) [0..<chunkSize E]"
      by auto
    from Suc(2) have "d = m - Suc j" by simp
    moreover from jm have "Suc j \<le> m" by simp
    ultimately obtain s' where
      s': "chunkLoop E P shape ec sh (Suc j * chunkSize E) s2 = Some (Resolved s')"
      and w': "writes (trace s') = writes (trace s2) @ shard_writes E P ec sh [Suc j..<m]"
      using Suc(1) [of "Suc j" s2] by blast
    have step: "j * chunkSize E + chunkSize E = Suc j * chunkSize E" by simp
    have "chunkLoop E P shape ec sh (j * chunkSize E) s = Some (Resolved s')"
      using cond cont s2 s'
      by (subst chunkLoop.simps) (simp add: poll_def step del: mult_Suc)
    moreover have "[j..<m] = j # [Suc j..<m]" using jm by (rule upt_conv_Cons)
    ultimately show ?thesis using w2 w' by (simp add: shard_writes_Cons)
  qed
qed

lemma tiled_length:
  assumes "tiled E P sh"
  shows "length_u8 (data sh) = (items P sh div chunkSize E) * chunkSize E * length (codebk P)"
proof -
  from assms have "length_u8 (data sh) = items P sh * length (codebk P)"
    by (simp add: tiled_def items_def)
  moreover from assms have "items P sh = (items P sh div chunkSize E) * chunkSize E"
    by (simp add: tiled_def)
  ultimately show ?thesis by simp
qed

lemma shardLoop_complete:
  assumes tiled: "\<And>sh. sh \<in> set shards \<Longrightarrow> tiled E P sh"
    and cb: "0 < length (codebk P)"
    and cont: "\<And>n. continueFn P n"
    and kernel_ok: "\<And>tile. \<exists>distTile. call_queryDist E P shape tile = Inr distTile"
    and engine_ok: "\<And>d. \<exists>topk. distTopK (filteredtopkinf P) d (firstLetters P) (firstLetterInt P)
                                0 1024 (topk_k P) = Inr topk"
  shows "\<exists>s'. shardLoop E P shape ec shards s = Some (Resolved s')
           \<and> writes (trace s') = writes (trace s) @ scan_writes E P ec shards"
  using tiled
proof (induction shards arbitrary: ec s)
  case Nil
  show ?case by simp
next
  case (Cons sh rest)
  from Cons.prems have t: "tiled E P sh" by simp
  then have wf: "wf_uint8array (data sh)" by (simp add: tiled_def)
  have "\<exists>s'. chunkLoop E P shape ec sh (0 * chunkSize E) s = Some (Resolved s')
      \<and> writes (trace s') = writes (trace s)
          @ shard_writes E P ec sh [0..<items P sh div chunkSize E]"
    using wf tiled_length [OF t] cb cont kernel_ok engine_ok by (rule chunkLoop_complete) simp
  then obtain s1 where s1: "chunkLoop E P shape ec sh 0 s = Some (Resolved s1)"
    and w1: "writes (trace s1) = writes (trace s)
        @ shard_writes E P ec sh [0..<items P sh div chunkSize E]"
    by auto
  from Cons.prems have "\<And>x. x \<in> set rest \<Longrightarrow> tiled E P x" by simp
  then have "\<exists>s'. shardLoop E P shape (Suc ec) rest s1 = Some (Resolved s')
      \<and> writes (trace s') = writes (trace s1) @ scan_writes E P (Suc ec) rest"
    by (rule Cons.IH)
  then obtain s' where "shardLoop E P shape (Suc ec) rest s1 = Some (Resolved s')"
    and "writes (trace s') = writes (trace s1) @ scan_writes E P (Suc ec) rest"
    by blast
  with s1 w1 show ?case by simp
qed

text \<open>A completed scan of tiled shards makes exactly the assignments of its chunks.\<close>

lemma run_complete:
  assumes tiled: "\<And>sh. sh \<in> set embeddings \<Longrightarrow> tiled E P sh"
    and shape: "codebookshape_of (codebk P) = Inr shape"
    and cont: "\<And>n. continueFn P n"
    and kernel_ok: "\<And>tile. \<exists>distTile. call_queryDist E P shape tile = Inr distTile"
    and engine_ok: "\<And>d. \<exists>topk. distTopK (filteredtopkinf P) d (firstLetters P) (firstLetterInt P)
                                0 1024 (topk_k P) = Inr topk"
  shows "\<exists>s'. queryToTiledDist E P embeddings d0 0 = Some (Resolved s')
           \<and> writes (trace s') = scan_writes E P 0 embeddings"
proof -
  from shape have cb: "0 < length (codebk P)"
    by (auto simp: codebookshape_of_def split: list.splits)
  have "\<exists>s'. shardLoop E P shape 0 embeddings (start_state P d0) = Some (Resolved s')
      \<and> writes (trace s') = writes (trace (start_state P d0)) @ scan_writes E P 0 embeddings"
    using tiled cb cont kernel_ok engine_ok by (rule shardLoop_complete)
  then obtain s1 where s1: "shardLoop E P shape 0 embeddings (start_state P d0) = Some (Resolved s1)"
    and w1: "writes (trace s1) = scan_writes E P 0 embeddings" by auto
  from engine_ok [of "dists s1"] obtain topk where
    "distTopK (filteredtopkinf P) (dists s1) (firstLetters P) (firstLetterInt P)
       0 1024 (topk_k P) = Inr topk" by blast
  then have "\<exists>s'. finish P s1 = Resolved s' \<and> writes (trace s') = writes (trace s1)"
    using cont [of "polls s1"] by (cases rule: finish_cases [of P s1]) simp_all
  with s1 w1 shape show ?thesis by (auto simp: queryToTiledDist_def)
qed












lemma cancelled_append [simp]: "cancelled (xs @ ys) \<longleftrightarrow> cancelled xs \<or> cancelled ys"
  by (auto simp: cancelled_def)






end
